theory Spec2Isabelle
  imports Complex_Main "HOL-Library.Sublist"
begin

section \<open>Strings\<close>

text \<open>
  JavaScript strings are modelled as \<open>string\<close> (lists of 8-bit characters). The string
  methods the server uses are written out below. \<open>toLowerCase\<close> and \<open>trim\<close> act on the ASCII
  letters and the ASCII white space only; the characters beyond ASCII that JavaScript also
  folds or trims are outside this model.
\<close>

definition lower_char :: "char \<Rightarrow> char" where
  "lower_char c =
     (case map_of (zip ''ABCDEFGHIJKLMNOPQRSTUVWXYZ'' ''abcdefghijklmnopqrstuvwxyz'') c of
        Some l \<Rightarrow> l
      | None \<Rightarrow> c)"

definition toLowerCase :: "string \<Rightarrow> string" where
  "toLowerCase s = map lower_char s"

definition is_space :: "char \<Rightarrow> bool" where
  "is_space c = (c \<in> set [CHR '' '', CHR 0x09, CHR 0x0A, CHR 0x0B, CHR 0x0C, CHR 0x0D])"

definition trim :: "string \<Rightarrow> string" where
  "trim s = rev (dropWhile is_space (rev (dropWhile is_space s)))"

text \<open>\<^verbatim>\<open>s.replace(/^www\./, '')\<close>: one leading \<open>www.\<close> is removed.\<close>

definition strip_www :: "string \<Rightarrow> string" where
  "strip_www s = (if take 4 s = ''www.'' then drop 4 s else s)"

text \<open>\<^verbatim>\<open>s.endsWith(t)\<close>.\<close>

definition endsWith :: "string \<Rightarrow> string \<Rightarrow> bool" where
  "endsWith s t = (length t \<le> length s \<and> drop (length s - length t) s = t)"

text \<open>\<^verbatim>\<open>s.split('.')\<close>: the labels between the dots; the empty string has one empty label.\<close>

fun split_dot :: "string \<Rightarrow> string list" where
  "split_dot [] = [[]]"
| "split_dot (c # cs) =
     (case split_dot cs of
        [] \<Rightarrow> [[c]]
      | l # ls \<Rightarrow> if c = CHR ''.'' then [] # l # ls else (c # l) # ls)"

text \<open>\<^verbatim>\<open>parts.join('.')\<close>.\<close>

fun join_dot :: "string list \<Rightarrow> string" where
  "join_dot [] = []"
| "join_dot [l] = l"
| "join_dot (l # m # ls) = l @ CHR ''.'' # join_dot (m # ls)"

text \<open>\<^verbatim>\<open>parts.slice(-k)\<close>: the last \<open>k\<close> elements, the whole array when it is shorter.\<close>

definition slice_last :: "nat \<Rightarrow> 'a list \<Rightarrow> 'a list" where
  "slice_last k xs = drop (length xs - k) xs"

section \<open>Parent domain\<close>

definition COMPOUND_TLDS :: "string list" where
  "COMPOUND_TLDS =
     [''co.uk'', ''co.jp'', ''co.kr'', ''co.nz'', ''co.za'', ''co.in'', ''co.id'',
      ''com.au'', ''com.br'', ''com.cn'', ''com.mx'', ''com.sg'', ''com.tw'', ''com.hk'',
      ''org.uk'', ''net.au'', ''ac.uk'', ''gov.uk'']"

definition getParentDomain :: "string \<Rightarrow> string" where
  "getParentDomain domain =
     (let parts = split_dot domain in
      if length parts \<le> 2 then domain
      else
        let lastTwo = join_dot (slice_last 2 parts) in
        if lastTwo \<in> set COMPOUND_TLDS \<and> length parts > 3
        then join_dot (slice_last 3 parts)
        else join_dot (slice_last 2 parts))"

section \<open>The store\<close>

text \<open>
  The five tables of the relational store (the schema at the end of the source), with the
  columns the statements of the server read and write. A table is the list of its rows in
  insertion order. The columns that the store fills in by default and that no statement
  below touches (the timestamps, \<^verbatim>\<open>is_active\<close>, \<^verbatim>\<open>context_snippet\<close>) are left out. Row ids
  are natural numbers.

  Every table is \<^verbatim>\<open>AUTOINCREMENT\<close>: besides its rows, the store keeps for a table the
  largest row id the table has ever been given (\<^verbatim>\<open>sqlite_sequence\<close>), and a new row id is
  one more than the larger of that and the largest row id present. The sequences of the
  three tables the server inserts into are fields of the store.
\<close>

record client =
  client_id :: nat
  client_name :: string
  client_owned_domains :: "string list"

record query =
  query_id :: nat
  query_client_id :: nat
  query_text :: string

record domain_tag =
  tag_id :: nat
  tag_domain :: string
  tag_category :: string
  tag_source :: string

text \<open>A JavaScript number: \<open>NaN\<close> or a finite value. Finite arithmetic is exact here.\<close>

datatype jsnum = NaN | Num rat

record run =
  run_id :: nat
  run_query_id :: nat
  run_raw_response :: string
  run_response_text :: string
  run_model :: string
  run_cost_estimate :: jsnum
  run_citation_count :: nat
  run_owned_citation_count :: nat

record citation =
  cit_id :: nat
  cit_run_id :: nat
  cit_url :: string
  cit_domain :: string
  cit_position :: nat
  cit_category :: string

record store =
  clients :: "client list"
  queries :: "query list"
  runs :: "run list"
  runs_seq :: nat
  citations :: "citation list"
  citations_seq :: nat
  domain_tags :: "domain_tag list"
  domain_tags_seq :: nat

text \<open>The row id of the next inserted row, from the table's sequence and its row ids.\<close>

definition next_rowid :: "nat \<Rightarrow> nat list \<Rightarrow> nat" where
  "next_rowid seq ids = Suc (max seq (fold max ids 0))"

text \<open>
  The failures of the request handlers, by HTTP status: 400, 404, 403, the upstream
  status, 500. \<open>HandlerRejected\<close> is an exception that leaves an \<^verbatim>\<open>async\<close> handler outside
  its \<^verbatim>\<open>try\<close>: the handler's promise rejects, and the handler writes no response.
\<close>

datatype error =
  ValidationError string
  | NotFound string
  | Forbidden string
  | UpstreamError nat string
  | ServerError string
  | HandlerRejected string

section \<open>Categorising a domain\<close>

text \<open>\<^verbatim>\<open>SELECT category FROM domain_tags WHERE domain = ?\<close>, first row.\<close>

definition select_tag_category :: "domain_tag list \<Rightarrow> string \<Rightarrow> string option" where
  "select_tag_category tags d = map_option tag_category (find (\<lambda>t. tag_domain t = d) tags)"

definition ownedClean :: "string \<Rightarrow> string" where
  "ownedClean owned = strip_www (toLowerCase (trim owned))"

text \<open>The loop over the owned domains; \<open>True\<close> is the early \<^verbatim>\<open>return 'owned'\<close>.\<close>

fun owned_loop :: "string \<Rightarrow> string list \<Rightarrow> bool" where
  "owned_loop domain [] = False"
| "owned_loop domain (owned # rest) =
     (if domain = ownedClean owned \<or> endsWith domain (CHR ''.'' # ownedClean owned)
      then True
      else owned_loop domain rest)"

definition categorizeDomain :: "domain_tag list \<Rightarrow> string \<Rightarrow> string list \<Rightarrow> string" where
  "categorizeDomain tags domain ownedDomains =
     (if owned_loop domain ownedDomains then ''owned''
      else
        case select_tag_category tags domain of
          Some c \<Rightarrow> c
        | None \<Rightarrow>
            let parentDomain = getParentDomain domain in
            if parentDomain \<noteq> domain
            then (case select_tag_category tags parentDomain of
                    Some c \<Rightarrow> c
                  | None \<Rightarrow> ''unknown'')
            else ''unknown'')"

section \<open>Cost estimate\<close>

fun js_mul :: "jsnum \<Rightarrow> jsnum \<Rightarrow> jsnum" where
  "js_mul (Num a) (Num b) = Num (a * b)"
| "js_mul _ _ = NaN"

fun js_add :: "jsnum \<Rightarrow> jsnum \<Rightarrow> jsnum" where
  "js_add (Num a) (Num b) = Num (a + b)"
| "js_add _ _ = NaN"

text \<open>
  \<^verbatim>\<open>+(x).toFixed(6)\<close>: \<open>NaN\<close> prints as \<^verbatim>\<open>"NaN"\<close> and reads back as \<open>NaN\<close>; a finite value
  below \<open>10^21\<close> in magnitude is rounded to the nearest multiple of \<open>10^-6\<close>, a tie going
  away from zero; a larger one is printed in full.
\<close>

fun toFixed6 :: "jsnum \<Rightarrow> jsnum" where
  "toFixed6 NaN = NaN"
| "toFixed6 (Num x) =
     (if 10 ^ 21 \<le> \<bar>x\<bar> then Num x
      else Num (sgn x * of_int \<lfloor>\<bar>x\<bar> * 10 ^ 6 + 1 / 2\<rfloor> / 10 ^ 6))"

text \<open>
  What \<^verbatim>\<open>MODEL_PRICING[model]\<close> evaluates to. \<^verbatim>\<open>MODEL_PRICING\<close> is an object literal, so
  besides its four own keys the lookup finds the members every object inherits from
  \<^verbatim>\<open>Object.prototype\<close>; such a member is a function (or, for \<^verbatim>\<open>__proto__\<close>, the
  prototype object), truthy, with no \<^verbatim>\<open>input\<close> or \<^verbatim>\<open>output\<close> property.
\<close>

datatype pricing = Pricing rat rat | Inherited

definition OBJECT_PROTOTYPE_KEYS :: "string list" where
  "OBJECT_PROTOTYPE_KEYS =
     [''constructor'', ''__proto__'', ''hasOwnProperty'', ''isPrototypeOf'',
      ''propertyIsEnumerable'', ''toLocaleString'', ''toString'', ''valueOf'',
      ''__defineGetter__'', ''__defineSetter__'', ''__lookupGetter__'', ''__lookupSetter__'']"

definition MODEL_PRICING :: "string \<Rightarrow> pricing option" where
  "MODEL_PRICING model =
     (if model = ''sonar'' then Some (Pricing 1 1)
      else if model = ''sonar-pro'' then Some (Pricing 3 15)
      else if model = ''sonar-reasoning'' then Some (Pricing 1 5)
      else if model = ''sonar-reasoning-pro'' then Some (Pricing 2 8)
      else if model \<in> set OBJECT_PROTOTYPE_KEYS then Some Inherited
      else None)"

text \<open>\<^verbatim>\<open>pricing.input\<close> and \<^verbatim>\<open>pricing.output\<close> as numbers: \<^verbatim>\<open>undefined\<close> becomes \<open>NaN\<close>.\<close>

fun pricing_input :: "pricing \<Rightarrow> jsnum" where
  "pricing_input (Pricing i out) = Num i"
| "pricing_input Inherited = NaN"

fun pricing_output :: "pricing \<Rightarrow> jsnum" where
  "pricing_output (Pricing i out) = Num out"
| "pricing_output Inherited = NaN"

definition estimateCost :: "string \<Rightarrow> jsnum \<Rightarrow> jsnum" where
  "estimateCost model queryCount =
     (let pricing = (case MODEL_PRICING model of Some p \<Rightarrow> p | None \<Rightarrow> Pricing 1 1);
          avgInputTokens = 200;
          avgOutputTokens = 500;
          costPerQuery =
            js_add (js_mul (Num (avgInputTokens / 1000000)) (pricing_input pricing))
                   (js_mul (Num (avgOutputTokens / 1000000)) (pricing_output pricing))
      in toFixed6 (js_mul costPerQuery queryCount))"

section \<open>Domain tags\<close>

text \<open>
  \<^verbatim>\<open>INSERT INTO domain_tags (domain, category, source) VALUES (?, ?, 'user')
  ON CONFLICT(domain) DO UPDATE SET category = ?, source = 'user'\<close>:
  the new rows and the new sequence. The statement takes a row id from the sequence
  before it meets the conflict, so the sequence advances also when the row is only updated.
\<close>

definition upsert_tag ::
  "domain_tag list \<Rightarrow> nat \<Rightarrow> string \<Rightarrow> string \<Rightarrow> domain_tag list \<times> nat" where
  "upsert_tag tags seq d c =
     (let rowid = next_rowid seq (map tag_id tags) in
      (if d \<in> set (map tag_domain tags)
       then map (\<lambda>t. if tag_domain t = d then t\<lparr>tag_category := c, tag_source := ''user''\<rparr> else t) tags
       else tags @ [\<lparr>tag_id = rowid, tag_domain = d, tag_category = c, tag_source = ''user''\<rparr>],
       rowid))"

text \<open>
  The pattern match of the \<^verbatim>\<open>LIKE\<close> operator, pattern first: \<^verbatim>\<open>%\<close> stands for any run of
  characters, \<^verbatim>\<open>_\<close> for any one character, and every other character for itself, the
  ASCII letters without regard to case. No escape character is declared.
\<close>

fun like_match :: "string \<Rightarrow> string \<Rightarrow> bool" where
  "like_match [] [] = True"
| "like_match [] (x # xs) = False"
| "like_match (p # ps) [] = (p = CHR ''%'' \<and> like_match ps [])"
| "like_match (p # ps) (x # xs) =
     (if p = CHR ''%'' then like_match ps (x # xs) \<or> like_match (p # ps) xs
      else if p = CHR ''_'' then like_match ps xs
      else lower_char p = lower_char x \<and> like_match ps xs)"

text \<open>
  The store reads the pattern and the value of a \<^verbatim>\<open>LIKE\<close> as C strings: both end at their
  first NUL character. A pattern of more than 50000 bytes is refused with an error when the
  operator is evaluated.
\<close>

definition until_nul :: "string \<Rightarrow> string" where
  "until_nul s = takeWhile (\<lambda>c. c \<noteq> CHR 0x00) s"

definition sql_like :: "string \<Rightarrow> string \<Rightarrow> bool" where
  "sql_like pattern v = like_match (until_nul pattern) (until_nul v)"

definition LIKE_PATTERN_LIMIT :: int where
  "LIKE_PATTERN_LIMIT = 50000"

text \<open>
  \<^verbatim>\<open>UPDATE citations SET category = ? WHERE <cond on domain> AND category = 'unknown'\<close>:
  the new table and the statement's \<^verbatim>\<open>changes\<close>, the number of rows its \<^verbatim>\<open>WHERE\<close> selects.
\<close>

definition update_unknown ::
  "(string \<Rightarrow> bool) \<Rightarrow> string \<Rightarrow> citation list \<Rightarrow> citation list \<times> nat" where
  "update_unknown cond c cits =
     (map (\<lambda>r. if cond (cit_domain r) \<and> cit_category r = ''unknown''
                then r\<lparr>cit_category := c\<rparr> else r) cits,
      length (filter (\<lambda>r. cond (cit_domain r) \<and> cit_category r = ''unknown'') cits))"

text \<open>
  \<^verbatim>\<open>UPDATE citations SET category = ? WHERE domain LIKE ? AND category = 'unknown'\<close>. The
  table has no index, so the statement scans it and evaluates \<^verbatim>\<open>LIKE\<close>, the first term of
  the \<^verbatim>\<open>WHERE\<close>, on every row: with a pattern over the limit it throws as soon as there
  is a row, and changes nothing.
\<close>

definition update_unknown_like ::
  "string \<Rightarrow> string \<Rightarrow> citation list \<Rightarrow> string + citation list \<times> nat" where
  "update_unknown_like pattern c cits =
     (if cits \<noteq> [] \<and> LIKE_PATTERN_LIMIT < int (length pattern)
      then Inl ''LIKE or GLOB pattern too complex''
      else Inr (update_unknown (sql_like pattern) c cits))"

text \<open>
  \<^verbatim>\<open>POST /api/domain-tags\<close>: the new store, and the tag with the count of retroactive
  updates, or the 400 response. The three statements are committed one by one; when the
  third throws, the first two stay and the answer is the 500 response.
\<close>

definition post_domain_tags ::
  "store \<Rightarrow> string \<Rightarrow> string \<Rightarrow> store \<times> (error + domain_tag option \<times> nat)" where
  "post_domain_tags st domain category =
     (if trim domain = [] \<or> trim category = []
      then (st, Inl (ValidationError ''Domain and category are required''))
      else
        let cleanDomain = strip_www (toLowerCase (trim domain));
            upserted = upsert_tag (domain_tags st) (domain_tags_seq st) cleanDomain category;
            st1 = st\<lparr>domain_tags := fst upserted, domain_tags_seq := snd upserted\<rparr>;
            updated = update_unknown (\<lambda>d. d = cleanDomain) category (citations st);
            tag = find (\<lambda>t. tag_domain t = cleanDomain) (fst upserted)
        in case update_unknown_like (''%.'' @ cleanDomain) category (fst updated) of
             Inl msg \<Rightarrow> (st1\<lparr>citations := fst updated\<rparr>, Inl (ServerError msg))
           | Inr parentUpdated \<Rightarrow>
               (st1\<lparr>citations := fst parentUpdated\<rparr>,
                Inr (tag, snd updated + snd parentUpdated)))"

text \<open>\<^verbatim>\<open>DELETE /api/domain-tags/:id\<close>.\<close>

definition delete_domain_tag :: "store \<Rightarrow> nat \<Rightarrow> store \<times> (error + unit)" where
  "delete_domain_tag st i =
     (case find (\<lambda>t. tag_id t = i) (domain_tags st) of
        None \<Rightarrow> (st, Inl (NotFound ''Tag not found''))
      | Some tag \<Rightarrow>
          if tag_source tag = ''system''
          then (st, Inl (Forbidden ''Cannot delete system tags''))
          else (st\<lparr>domain_tags := filter (\<lambda>t. tag_id t \<noteq> i) (domain_tags st)\<rparr>, Inr ()))"

text \<open>
  What the schema and the two writers keep of the tag table: the row id is the primary
  key, the domain is unique, and a provenance is \<^verbatim>\<open>system\<close> (the seed rows) or \<^verbatim>\<open>user\<close>.
\<close>

definition wf_tags :: "domain_tag list \<Rightarrow> bool" where
  "wf_tags tags =
     (distinct (map tag_id tags) \<and> distinct (map tag_domain tags) \<and>
      list_all (\<lambda>t. tag_source t = ''system'' \<or> tag_source t = ''user'') tags)"

section \<open>Analysing a query\<close>

text \<open>
  The answer engine is an external collaborator: a call either throws, or answers with a
  status that is not a success, or answers with a payload. Of the payload the server reads
  \<^verbatim>\<open>choices[0].message.content\<close> (or the empty string), \<^verbatim>\<open>citations\<close> (or the empty array)
  and the whole as JSON text.
\<close>

record upstream_data =
  data_content :: string
  data_citations :: "string list"
  data_json :: string

datatype fetch_result =
  FetchOk upstream_data
  | FetchNotOk nat string
  | FetchThrows string

record categorized =
  c_url :: string
  c_domain :: string
  c_position :: nat
  c_category :: string

text \<open>
  \<^verbatim>\<open>new URL(url).hostname\<close> is the platform's URL parser, taken as the parameter \<open>hostname\<close>;
  \<open>None\<close> is the parser throwing.
\<close>

definition extractDomain :: "(string \<Rightarrow> string option) \<Rightarrow> string \<Rightarrow> string" where
  "extractDomain hostname url = (case hostname url of Some h \<Rightarrow> strip_www h | None \<Rightarrow> url)"

text \<open>\<^verbatim>\<open>citations.map((url, i) => ...)\<close>, from index \<open>i\<close> on.\<close>

fun categorize_from ::
  "(string \<Rightarrow> string option) \<Rightarrow> domain_tag list \<Rightarrow> string list \<Rightarrow> nat \<Rightarrow> string list
   \<Rightarrow> categorized list" where
  "categorize_from hostname tags ownedDomains i [] = []"
| "categorize_from hostname tags ownedDomains i (url # urls) =
     (let domain = extractDomain hostname url;
          category = categorizeDomain tags domain ownedDomains
      in \<lparr>c_url = url, c_domain = domain, c_position = i + 1, c_category = category\<rparr>
           # categorize_from hostname tags ownedDomains (i + 1) urls)"

text \<open>
  \<^verbatim>\<open>SELECT c.owned_domains FROM queries q JOIN clients c ON c.id = q.client_id
  WHERE q.id = ?\<close>
\<close>

definition select_owned_domains :: "store \<Rightarrow> nat \<Rightarrow> string list option" where
  "select_owned_domains st qid =
     (case find (\<lambda>q. query_id q = qid) (queries st) of
        None \<Rightarrow> None
      | Some q \<Rightarrow>
          (case find (\<lambda>c. client_id c = query_client_id q) (clients st) of
             None \<Rightarrow> None
           | Some c \<Rightarrow> Some (client_owned_domains c)))"

text \<open>
  \<^verbatim>\<open>INSERT INTO runs (...) VALUES (...)\<close>: the new store and \<^verbatim>\<open>lastInsertRowid\<close>. Foreign keys
  are enforced: with no query of that id the statement throws and stores nothing.
\<close>

definition insert_run ::
  "store \<Rightarrow> nat \<Rightarrow> upstream_data \<Rightarrow> string \<Rightarrow> jsnum \<Rightarrow> nat \<Rightarrow> string + store \<times> nat" where
  "insert_run st qid data model cost ownedCount =
     (case find (\<lambda>q. query_id q = qid) (queries st) of
        None \<Rightarrow> Inl ''FOREIGN KEY constraint failed''
      | Some q \<Rightarrow>
          let rid = next_rowid (runs_seq st) (map run_id (runs st)) in
          Inr (st\<lparr>runs := runs st @
                 [\<lparr>run_id = rid, run_query_id = qid, run_raw_response = data_json data,
                   run_response_text = data_content data, run_model = model,
                   run_cost_estimate = cost, run_citation_count = length (data_citations data),
                   run_owned_citation_count = ownedCount\<rparr>],
                 runs_seq := rid\<rparr>, rid))"

text \<open>
  \<^verbatim>\<open>insertCitation.run(runId, c.url, c.domain, c.position, c.category)\<close>, on the citation
  table and its sequence. A statement of the store can throw (the storage error of the
  handlers' error taxonomy); \<open>storage_error\<close> says for which row, and with which message.
\<close>

definition insertCitation ::
  "(citation \<Rightarrow> string option) \<Rightarrow> citation list \<times> nat \<Rightarrow> nat \<Rightarrow> categorized
   \<Rightarrow> string + citation list \<times> nat" where
  "insertCitation storage_error table runId c =
     (let rowid = next_rowid (snd table) (map cit_id (fst table));
          row = \<lparr>cit_id = rowid, cit_run_id = runId, cit_url = c_url c,
                  cit_domain = c_domain c, cit_position = c_position c,
                  cit_category = c_category c\<rparr>
      in case storage_error row of
           Some msg \<Rightarrow> Inl msg
         | None \<Rightarrow> Inr (fst table @ [row], rowid))"

text \<open>The body of the transaction: \<^verbatim>\<open>for (const c of items) insertCitation.run(...)\<close>.\<close>

fun insertAll ::
  "(citation \<Rightarrow> string option) \<Rightarrow> citation list \<times> nat \<Rightarrow> nat \<Rightarrow> categorized list
   \<Rightarrow> string + citation list \<times> nat" where
  "insertAll storage_error table runId [] = Inr table"
| "insertAll storage_error table runId (c # items) =
     (case insertCitation storage_error table runId c of
        Inl msg \<Rightarrow> Inl msg
      | Inr table' \<Rightarrow> insertAll storage_error table' runId items)"

text \<open>
  \<^verbatim>\<open>db.transaction(body)\<close>: when the body throws, what it wrote is rolled back, the rows
  and the sequence alike, and the exception is thrown on.
\<close>

definition transaction :: "('s \<Rightarrow> string + 's) \<Rightarrow> 's \<Rightarrow> 's \<times> string option" where
  "transaction body s = (case body s of Inl msg \<Rightarrow> (s, Some msg) | Inr s' \<Rightarrow> (s', None))"

record analyze_response =
  resp_run_id :: "nat option"
  resp_text :: string
  resp_citations :: "categorized list"
  resp_citation_count :: nat
  resp_owned_citation_count :: nat
  resp_model :: string
  resp_cost_estimate :: jsnum

text \<open>
  \<^verbatim>\<open>POST /api/analyze\<close>. \<open>fetched\<close> is the outcome of the one upstream call; \<open>model\<close> is the
  request's model after its default. A \<^verbatim>\<open>queryId\<close> of 0 is falsy, as a missing one. Every
  exception is caught by the handler's \<^verbatim>\<open>try\<close> and answered with 500.
\<close>

definition post_analyze ::
  "(string \<Rightarrow> string option) \<Rightarrow> (citation \<Rightarrow> string option) \<Rightarrow> fetch_result \<Rightarrow> store
   \<Rightarrow> nat option \<Rightarrow> string \<Rightarrow> string \<Rightarrow> string \<Rightarrow> store \<times> (error + analyze_response)" where
  "post_analyze hostname storage_error fetched st queryId query apiKey model =
     (if query = [] then (st, Inl (ValidationError ''Query is required''))
      else if apiKey = [] then (st, Inl (ValidationError ''API key is required''))
      else
        case fetched of
          FetchThrows msg \<Rightarrow> (st, Inl (ServerError msg))
        | FetchNotOk status body \<Rightarrow> (st, Inl (UpstreamError status body))
        | FetchOk data \<Rightarrow>
            let given = (case queryId of None \<Rightarrow> None | Some q \<Rightarrow> if q = 0 then None else Some q);
                cost = estimateCost model (Num 1);
                ownedDomains =
                  (case given of
                     None \<Rightarrow> []
                   | Some qid \<Rightarrow>
                       (case select_owned_domains st qid of None \<Rightarrow> [] | Some ds \<Rightarrow> ds));
                categorizedCitations =
                  categorize_from hostname (domain_tags st) ownedDomains 0 (data_citations data);
                ownedCount = length (filter (\<lambda>c. c_category c = ''owned'') categorizedCitations);
                response = (\<lambda>runId.
                  \<lparr>resp_run_id = runId, resp_text = data_content data,
                    resp_citations = categorizedCitations,
                    resp_citation_count = length (data_citations data),
                    resp_owned_citation_count = ownedCount, resp_model = model,
                    resp_cost_estimate = cost\<rparr>)
            in case given of
                 None \<Rightarrow> (st, Inr (response None))
               | Some qid \<Rightarrow>
                   (case insert_run st qid data model cost ownedCount of
                      Inl msg \<Rightarrow> (st, Inl (ServerError msg))
                    | Inr inserted \<Rightarrow>
                        let st1 = fst inserted;
                            runId = snd inserted;
                            done = transaction
                              (\<lambda>table. insertAll storage_error table runId categorizedCitations)
                              (citations st1, citations_seq st1)
                        in case snd done of
                             Some msg \<Rightarrow> (st1, Inl (ServerError msg))
                           | None \<Rightarrow>
                               (st1\<lparr>citations := fst (fst done), citations_seq := snd (fst done)\<rparr>,
                                Inr (response (Some runId)))))"

section \<open>Batch analysis\<close>

text \<open>
  An element of \<^verbatim>\<open>queryIds\<close> is any JSON value; it is modelled by what the store makes of
  it as the parameter of a statement: a value it binds that the id column compares equal to
  the row id \<open>n\<close> (the number, or a text the column's affinity converts to it), a value it
  binds that equals no row id (null, any other text or number), or a value it cannot bind
  (a boolean), for which the statement throws.
\<close>

datatype query_ref = RowId nat | NoRowId | Unbindable

text \<open>
  \<^verbatim>\<open>SELECT * FROM queries WHERE id = ?\<close> in the turn at index \<open>i\<close>. \<open>select_error i\<close> is a
  failure of the store at this statement, with its message.
\<close>

definition select_query ::
  "(nat \<Rightarrow> string option) \<Rightarrow> store \<Rightarrow> nat \<Rightarrow> query_ref \<Rightarrow> string + query option" where
  "select_query select_error st i ref =
     (case ref of
        Unbindable \<Rightarrow> Inl ''SQLite3 can only bind numbers, strings, bigints, buffers, and null''
      | NoRowId \<Rightarrow> (case select_error i of Some msg \<Rightarrow> Inl msg | None \<Rightarrow> Inr None)
      | RowId n \<Rightarrow>
          (case select_error i of
             Some msg \<Rightarrow> Inl msg
           | None \<Rightarrow> Inr (find (\<lambda>q. query_id q = n) (queries st))))"

text \<open>
  An entry of the results array: \<^verbatim>\<open>{queryId, error: 'Query not found'}\<close>;
  \<^verbatim>\<open>{queryId, query, error: `API error: ${status}`, details}\<close>;
  \<^verbatim>\<open>{queryId, query, error: error.message}\<close>; or the entry of a stored run, with
  \<^verbatim>\<open>queryId, query, runId, citationCount, ownedCitationCount, costEstimate, citations\<close>.
\<close>

datatype batch_entry =
  EntryNotFound query_ref
  | EntryApiError query_ref string nat string
  | EntryThrown query_ref string string
  | EntryOk query_ref string nat nat nat jsnum "categorized list"

fun entry_query_id :: "batch_entry \<Rightarrow> query_ref" where
  "entry_query_id (EntryNotFound ref) = ref"
| "entry_query_id (EntryApiError ref qtext status details) = ref"
| "entry_query_id (EntryThrown ref qtext msg) = ref"
| "entry_query_id (EntryOk ref qtext runId n ownedCount cost cs) = ref"


text \<open>
  One turn of the loop, for the element at index \<open>i\<close>: the store it leaves, and the entry
  it pushes or the exception it throws. The lookup of the query stands before the \<^verbatim>\<open>try\<close>,
  so what it throws leaves the loop; everything after it is inside the \<^verbatim>\<open>try\<close>, whose
  \<^verbatim>\<open>catch\<close> pushes an entry. \<open>fetch i qtext\<close> is the outcome of the upstream call this turn
  makes. The statements after the lookup bind the same element; they are written with the
  id of the row found. The pause between two calls is not modelled.
\<close>

definition batch_item ::
  "(string \<Rightarrow> string option) \<Rightarrow> (nat \<Rightarrow> string option) \<Rightarrow> (citation \<Rightarrow> string option)
   \<Rightarrow> (nat \<Rightarrow> string \<Rightarrow> fetch_result) \<Rightarrow> string \<Rightarrow> store \<Rightarrow> nat \<Rightarrow> query_ref
   \<Rightarrow> store \<times> (string + batch_entry)" where
  "batch_item hostname select_error storage_error fetch model st i ref =
     (case select_query select_error st i ref of
        Inl msg \<Rightarrow> (st, Inl msg)
      | Inr None \<Rightarrow> (st, Inr (EntryNotFound ref))
      | Inr (Some queryRow) \<Rightarrow>
          (case fetch i (query_text queryRow) of
             FetchThrows msg \<Rightarrow> (st, Inr (EntryThrown ref (query_text queryRow) msg))
           | FetchNotOk status body \<Rightarrow>
               (st, Inr (EntryApiError ref (query_text queryRow) status body))
           | FetchOk data \<Rightarrow>
               let qid = query_id queryRow;
                   cost = estimateCost model (Num 1);
                   ownedDomains =
                     (case select_owned_domains st qid of None \<Rightarrow> [] | Some ds \<Rightarrow> ds);
                   categorizedCitations =
                     categorize_from hostname (domain_tags st) ownedDomains 0 (data_citations data);
                   ownedCount =
                     length (filter (\<lambda>c. c_category c = ''owned'') categorizedCitations)
               in case insert_run st qid data model cost ownedCount of
                    Inl msg \<Rightarrow> (st, Inr (EntryThrown ref (query_text queryRow) msg))
                  | Inr inserted \<Rightarrow>
                      let st1 = fst inserted;
                          runId = snd inserted;
                          done = transaction
                            (\<lambda>table. insertAll storage_error table runId categorizedCitations)
                            (citations st1, citations_seq st1)
                      in case snd done of
                           Some msg \<Rightarrow> (st1, Inr (EntryThrown ref (query_text queryRow) msg))
                         | None \<Rightarrow>
                             (st1\<lparr>citations := fst (fst done), citations_seq := snd (fst done)\<rparr>,
                              Inr (EntryOk ref (query_text queryRow) runId
                                     (length (data_citations data)) ownedCount cost
                                     categorizedCitations))))"

text \<open>The loop: the store it leaves, and the results array or the exception that ended it.\<close>

fun batch_loop ::
  "(string \<Rightarrow> string option) \<Rightarrow> (nat \<Rightarrow> string option) \<Rightarrow> (citation \<Rightarrow> string option)
   \<Rightarrow> (nat \<Rightarrow> string \<Rightarrow> fetch_result) \<Rightarrow> string \<Rightarrow> store \<Rightarrow> nat \<Rightarrow> query_ref list
   \<Rightarrow> store \<times> (string + batch_entry list)" where
  "batch_loop hostname select_error storage_error fetch model st i [] = (st, Inr [])"
| "batch_loop hostname select_error storage_error fetch model st i (ref # rest) =
     (let turn = batch_item hostname select_error storage_error fetch model st i ref in
      case snd turn of
        Inl msg \<Rightarrow> (fst turn, Inl msg)
      | Inr entry \<Rightarrow>
          (let later =
                 batch_loop hostname select_error storage_error fetch model (fst turn) (i + 1) rest
           in case snd later of
                Inl msg \<Rightarrow> (fst later, Inl msg)
              | Inr entries \<Rightarrow> (fst later, Inr (entry # entries))))"


text \<open>The query an element of \<^verbatim>\<open>queryIds\<close> stands for, if any.\<close>

definition ref_query :: "store \<Rightarrow> query_ref \<Rightarrow> query option" where
  "ref_query st ref =
     (case ref of RowId n \<Rightarrow> find (\<lambda>q. query_id q = n) (queries st) | _ \<Rightarrow> None)"

text \<open>The columns of a citation row that come from the categorised citation.\<close>

definition categorized_of :: "citation \<Rightarrow> categorized" where
  "categorized_of row =
     \<lparr>c_url = cit_url row, c_domain = cit_domain row, c_position = cit_position row,
      c_category = cit_category row\<rparr>"

section \<open>Example data\<close>

definition example_tags :: "domain_tag list" where
  "example_tags =
     [\<lparr>tag_id = 1, tag_domain = ''coindesk.com'', tag_category = ''news'',
        tag_source = ''system''\<rparr>,
      \<lparr>tag_id = 2, tag_domain = ''myblog.example.org'', tag_category = ''blog'',
        tag_source = ''user''\<rparr>]"

definition example_store :: store where
  "example_store =
     \<lparr>clients = [\<lparr>client_id = 1, client_name = ''Acme'', client_owned_domains = [''owned.com'']\<rparr>],
      queries = [\<lparr>query_id = 1, query_client_id = 1, query_text = ''best exchange''\<rparr>,
                 \<lparr>query_id = 3, query_client_id = 1, query_text = ''bitcoin news''\<rparr>],
      runs = [\<lparr>run_id = 1, run_query_id = 1, run_raw_response = ''{}'', run_response_text = [],
                run_model = ''sonar'', run_cost_estimate = Num (7 / 10000),
                run_citation_count = 3, run_owned_citation_count = 0\<rparr>],
      runs_seq = 1,
      citations =
        [\<lparr>cit_id = 1, cit_run_id = 1, cit_url = ''https://example.com/a'',
           cit_domain = ''example.com'', cit_position = 1, cit_category = ''unknown''\<rparr>,
         \<lparr>cit_id = 2, cit_run_id = 1, cit_url = ''https://blog.example.com/b'',
           cit_domain = ''blog.example.com'', cit_position = 2, cit_category = ''social''\<rparr>,
         \<lparr>cit_id = 3, cit_run_id = 1, cit_url = ''https://x.abc.com/c'',
           cit_domain = ''x.abc.com'', cit_position = 3, cit_category = ''unknown''\<rparr>],
      citations_seq = 3,
      domain_tags = example_tags,
      domain_tags_seq = 2\<rparr>"

text \<open>
  Stand-ins for the collaborators in the worked instances: a URL parser that reads the host
  of a lower-case \<^verbatim>\<open>https://\<close> URL, an upstream answer with two citations, a store that
  throws on the insert of a citation at position 2, and a query lookup that never fails.
\<close>

definition example_hostname :: "string \<Rightarrow> string option" where
  "example_hostname url =
     (if take 8 url = ''https://'' then Some (takeWhile (\<lambda>c. c \<noteq> CHR ''/'') (drop 8 url))
      else None)"

definition example_data :: upstream_data where
  "example_data =
     \<lparr>data_content = ''See the sources.'',
      data_citations = [''https://www.coindesk.com/a'', ''https://sub.owned.com/x''],
      data_json = ''{...}''\<rparr>"

definition example_fetch :: "nat \<Rightarrow> string \<Rightarrow> fetch_result" where
  "example_fetch i qtext = FetchOk example_data"

definition no_storage_error :: "citation \<Rightarrow> string option" where
  "no_storage_error row = None"

definition no_select_error :: "nat \<Rightarrow> string option" where
  "no_select_error i = None"

definition example_storage_error :: "citation \<Rightarrow> string option" where
  "example_storage_error row =
     (if cit_position row = 2 then Some ''database or disk is full'' else None)"

text \<open>A tag domain with a NUL character in it: \<^verbatim>\<open>com\<close>, NUL, \<^verbatim>\<open>x\<close>.\<close>

definition nul_domain :: string where
  "nul_domain = ''com'' @ [CHR 0x00] @ ''x''"

section \<open>Splitting and joining\<close>

lemma split_dot_not_Nil: "split_dot s \<noteq> []"
  by (induction s) (auto split: list.splits)

lemma split_dot_no_dot: "CHR ''.'' \<notin> set l \<Longrightarrow> split_dot l = [l]"
  by (induction l) auto

lemma split_dot_append:
  "CHR ''.'' \<notin> set l \<Longrightarrow> split_dot (l @ CHR ''.'' # r) = l # split_dot r"
proof (induction l)
  case Nil
  then show ?case using split_dot_not_Nil [of r] by (auto split: list.splits)
next
  case (Cons a l)
  then show ?case by auto
qed

lemma split_join_dot:
  "ls \<noteq> [] \<Longrightarrow> list_all (\<lambda>l. CHR ''.'' \<notin> set l) ls \<Longrightarrow> split_dot (join_dot ls) = ls"
proof (induction ls rule: join_dot.induct)
  case 1
  then show ?case by simp
next
  case (2 l)
  then show ?case by (simp add: split_dot_no_dot)
next
  case (3 l m ls)
  then show ?case by (simp add: split_dot_append)
qed

lemma join_split_dot: "join_dot (split_dot s) = s"
proof (induction s)
  case Nil
  then show ?case by simp
next
  case (Cons c cs)
  obtain l ls where sp: "split_dot cs = l # ls"
    using split_dot_not_Nil [of cs] by (cases "split_dot cs") auto
  show ?case
  proof (cases "c = CHR ''.''")
    case True
    with Cons sp show ?thesis by simp
  next
    case False
    with Cons sp show ?thesis by (cases ls) auto
  qed
qed

lemma split_dot_labels: "list_all (\<lambda>l. CHR ''.'' \<notin> set l) (split_dot s)"
proof (induction s)
  case Nil
  then show ?case by simp
next
  case (Cons c cs)
  obtain l ls where sp: "split_dot cs = l # ls"
    using split_dot_not_Nil [of cs] by (cases "split_dot cs") auto
  with Cons show ?case by auto
qed

text \<open>
  C5. For a domain made of the dot-free labels \<open>ls\<close>: with at most two labels the parent
  domain is the domain itself; with more than three labels whose last two, joined, are a
  compound TLD it is the last three labels joined; otherwise it is the last two labels
  joined. The three examples of the specification are instances.
\<close>

theorem getParentDomain_labels:
  assumes "ls \<noteq> []" and "list_all (\<lambda>l. CHR ''.'' \<notin> set l) ls"
  shows "getParentDomain (join_dot ls) =
           (if length ls \<le> 2 then join_dot ls
            else if length ls > 3 \<and> join_dot (drop (length ls - 2) ls) \<in> set COMPOUND_TLDS
            then join_dot (drop (length ls - 3) ls)
            else join_dot (drop (length ls - 2) ls))
         \<and> getParentDomain ''docs.example.co.uk'' = ''example.co.uk''
         \<and> getParentDomain ''blog.example.com'' = ''example.com''
         \<and> getParentDomain ''example.com'' = ''example.com''"
proof -
  have sp: "split_dot (join_dot ls) = ls"
    using assms by (rule split_join_dot)
  have gen: "getParentDomain (join_dot ls) =
           (if length ls \<le> 2 then join_dot ls
            else if length ls > 3 \<and> join_dot (drop (length ls - 2) ls) \<in> set COMPOUND_TLDS
            then join_dot (drop (length ls - 3) ls)
            else join_dot (drop (length ls - 2) ls))"
    by (auto simp: getParentDomain_def sp slice_last_def Let_def)
  have e1: "getParentDomain ''docs.example.co.uk'' = ''example.co.uk''"
    by (simp add: getParentDomain_def slice_last_def COMPOUND_TLDS_def)
  have e2: "getParentDomain ''blog.example.com'' = ''example.com''"
    by (simp add: getParentDomain_def slice_last_def COMPOUND_TLDS_def)
  have e3: "getParentDomain ''example.com'' = ''example.com''"
    by (simp add: getParentDomain_def slice_last_def COMPOUND_TLDS_def)
  from gen e1 e2 e3 show ?thesis by simp
qed

theorem getParentDomain_labels_witness:
  "getParentDomain (join_dot [''a'', ''b'', ''shop'', ''com'', ''au'']) = ''shop.com.au''
   \<and> getParentDomain (join_dot [''shop'', ''com'', ''au'']) = ''com.au''"
proof -
  have h1: "[''a'', ''b'', ''shop'', ''com'', ''au''] \<noteq> []" by simp
  have h2: "list_all (\<lambda>l. CHR ''.'' \<notin> set l) [''a'', ''b'', ''shop'', ''com'', ''au'']" by simp
  have h3: "[''shop'', ''com'', ''au''] \<noteq> []" by simp
  have h4: "list_all (\<lambda>l. CHR ''.'' \<notin> set l) [''shop'', ''com'', ''au'']" by simp
  show ?thesis
    using getParentDomain_labels [OF h1 h2] getParentDomain_labels [OF h3 h4]
    by (simp add: COMPOUND_TLDS_def)
qed

section \<open>Categorising a domain: precedence\<close>

lemma endsWith_suffix: "endsWith s t = suffix t s"
proof
  assume "endsWith s t"
  then have "s = take (length s - length t) s @ t"
    by (metis append_take_drop_id endsWith_def)
  then show "suffix t s" by (metis suffixI)
next
  assume "suffix t s"
  then obtain u where "s = u @ t" by (auto simp: suffix_def)
  then show "endsWith s t" by (simp add: endsWith_def)
qed

lemma trim_id: "s = [] \<or> (\<not> is_space (hd s) \<and> \<not> is_space (last s)) \<Longrightarrow> trim s = s"
proof (cases s)
  case Nil
  then show ?thesis by (simp add: trim_def)
next
  case (Cons a as)
  assume "s = [] \<or> (\<not> is_space (hd s) \<and> \<not> is_space (last s))"
  with Cons have h: "\<not> is_space (hd s)" and l: "\<not> is_space (last s)" by simp_all
  from Cons h have d1: "dropWhile is_space s = s" by simp
  from Cons have "rev s \<noteq> []" by simp
  then obtain b bs where r: "rev s = b # bs" by (cases "rev s") auto
  then have "b = last s" using Cons by (metis hd_rev list.sel(1) list.distinct(1))
  with l have "\<not> is_space b" by simp
  then have "dropWhile is_space (b # bs) = b # bs" by simp
  then have "dropWhile is_space (rev s) = rev s" by (simp only: r)
  with d1 show ?thesis by (simp add: trim_def)
qed

text \<open>An entry with no white space around it is lower-cased and loses one leading \<open>www.\<close>.\<close>

lemma ownedClean_untrimmed:
  "s = [] \<or> (\<not> is_space (hd s) \<and> \<not> is_space (last s)) \<Longrightarrow>
   ownedClean s = strip_www (toLowerCase s)"
  by (simp add: ownedClean_def trim_id)

lemma owned_loop_iff:
  "owned_loop d L = (\<exists>owned\<in>set L. d = ownedClean owned \<or> endsWith d (CHR ''.'' # ownedClean owned))"
  by (induction L) auto

text \<open>
  C2. \<open>categorizeDomain\<close> follows the four-step precedence, first match winning: \<open>owned\<close>
  when the domain equals, or ends with a dot and, some entry of the owned list after the
  entry's normalisation (\<open>ownedClean\<close>: surrounding white space trimmed, lower case, one
  leading \<open>www.\<close> stripped), whatever the tag store holds; otherwise the category of the
  exact tag; otherwise the category of the tag of the parent domain, when that differs from
  the domain; otherwise \<open>unknown\<close>.
\<close>

theorem categorizeDomain_precedence:
  "categorizeDomain tags d L =
     (if \<exists>owned\<in>set L. d = ownedClean owned \<or> suffix (CHR ''.'' # ownedClean owned) d
      then ''owned''
      else case find (\<lambda>t. tag_domain t = d) tags of
             Some t \<Rightarrow> tag_category t
           | None \<Rightarrow>
               if getParentDomain d \<noteq> d
               then (case find (\<lambda>t. tag_domain t = getParentDomain d) tags of
                       Some t \<Rightarrow> tag_category t
                     | None \<Rightarrow> ''unknown'')
               else ''unknown'')"
  by (simp add: categorizeDomain_def owned_loop_iff endsWith_suffix select_tag_category_def
      split: option.splits)

section \<open>Deleting a tag\<close>

lemma find_tag_id_unique:
  "distinct (map tag_id tags) \<Longrightarrow> t \<in> set tags \<Longrightarrow> find (\<lambda>u. tag_id u = tag_id t) tags = Some t"
proof (induction tags)
  case Nil
  then show ?case by simp
next
  case (Cons a tags)
  then show ?case by (auto simp: image_iff)
qed

lemma find_Some_mem: "find P xs = Some x \<Longrightarrow> x \<in> set xs \<and> P x"
  by (induction xs) (auto split: if_splits)

lemma fold_max_ge: "x \<in> set ids \<Longrightarrow> x \<le> fold max ids (m::nat)"
proof (induction ids arbitrary: m)
  case Nil
  then show ?case by simp
next
  case (Cons a ids)
  have mono: "\<And>k. k \<le> fold max ids k"
  proof -
    fix k show "k \<le> fold max ids k"
      by (induction ids arbitrary: k) (auto intro: order_trans [OF max.cobounded2])
  qed
  from Cons show ?case
    by (auto intro: order_trans [OF max.cobounded1 mono])
qed

lemma fold_max_le: "\<forall>x\<in>set ids. x \<le> m \<Longrightarrow> fold max ids (k::nat) \<le> max m k"
proof (induction ids arbitrary: k)
  case Nil
  then show ?case by simp
next
  case (Cons a ids)
  from Cons.prems have "\<forall>x\<in>set ids. x \<le> m" and a: "a \<le> m" by simp_all
  then have "fold max ids (max a k) \<le> max m (max a k)" by (intro Cons.IH)
  also have "max m (max a k) = max m k" using a by (simp add: max_def)
  finally show ?case by simp
qed

lemma next_rowid_notin: "next_rowid seq ids \<notin> set ids"
proof
  assume "next_rowid seq ids \<in> set ids"
  then have "next_rowid seq ids \<le> fold max ids 0" by (rule fold_max_ge)
  then show False by (simp add: next_rowid_def)
qed

lemma next_rowid_gt: "seq < next_rowid seq ids"
  by (simp add: next_rowid_def)

lemma filter_neq_remove1:
  "distinct (map f xs) \<Longrightarrow> x \<in> set xs \<Longrightarrow> filter (\<lambda>t. f t \<noteq> f x) xs = remove1 x xs"
proof (induction xs)
  case Nil
  then show ?case by simp
next
  case (Cons a xs)
  show ?case
  proof (cases "a = x")
    case True
    with Cons.prems have "\<forall>t\<in>set xs. f t \<noteq> f x" by (auto simp: image_iff)
    then have "filter (\<lambda>t. f t \<noteq> f x) xs = xs" by (simp add: filter_id_conv)
    with True show ?thesis by simp
  next
    case False
    with Cons.prems have "x \<in> set xs" and "f a \<noteq> f x" by (auto simp: image_iff)
    with Cons show ?thesis using False by simp
  qed
qed

text \<open>
  C6. Deleting a tag fails closed. With no tag of that id the answer is \<open>NotFound\<close>, with a
  tag of provenance \<open>system\<close> it is \<open>Forbidden\<close>, and in both cases the store is returned
  as it was. On a tag table that keeps the schema's promises, a tag of provenance \<open>user\<close> is
  removed, and a row that is gone afterwards had that id and provenance \<open>user\<close>.
\<close>

theorem delete_fails_closed:
  "(find (\<lambda>t. tag_id t = i) (domain_tags st) = None \<longrightarrow>
      delete_domain_tag st i = (st, Inl (NotFound ''Tag not found'')))
   \<and> (\<forall>tag. find (\<lambda>t. tag_id t = i) (domain_tags st) = Some tag \<and> tag_source tag = ''system'' \<longrightarrow>
      delete_domain_tag st i = (st, Inl (Forbidden ''Cannot delete system tags'')))
   \<and> (wf_tags (domain_tags st) \<longrightarrow>
        (\<forall>tag. find (\<lambda>t. tag_id t = i) (domain_tags st) = Some tag \<and> tag_source tag = ''user'' \<longrightarrow>
           delete_domain_tag st i = (st\<lparr>domain_tags := remove1 tag (domain_tags st)\<rparr>, Inr ()))
      \<and> (\<forall>t. t \<in> set (domain_tags st)
             \<and> t \<notin> set (domain_tags (fst (delete_domain_tag st i))) \<longrightarrow>
           tag_id t = i \<and> tag_source t = ''user'' \<and> snd (delete_domain_tag st i) = Inr ()))"
proof -
  let ?tags = "domain_tags st"
  let ?f = "find (\<lambda>t. tag_id t = i) ?tags"
  have p1: "?f = None \<longrightarrow> delete_domain_tag st i = (st, Inl (NotFound ''Tag not found''))"
    by (simp add: delete_domain_tag_def)
  have p2: "\<forall>tag. ?f = Some tag \<and> tag_source tag = ''system'' \<longrightarrow>
            delete_domain_tag st i = (st, Inl (Forbidden ''Cannot delete system tags''))"
    by (simp add: delete_domain_tag_def)
  have p3: "\<forall>tag. ?f = Some tag \<and> tag_source tag = ''user'' \<longrightarrow>
            delete_domain_tag st i = (st\<lparr>domain_tags := remove1 tag ?tags\<rparr>, Inr ())"
    if wf: "wf_tags ?tags"
  proof (intro allI impI)
    fix tag assume a: "?f = Some tag \<and> tag_source tag = ''user''"
    from wf have dist: "distinct (map tag_id ?tags)" by (simp add: wf_tags_def)
    from a have mem: "tag \<in> set ?tags" and tid: "tag_id tag = i"
      using find_Some_mem [of "\<lambda>t. tag_id t = i" ?tags tag] by simp_all
    have "filter (\<lambda>t. tag_id t \<noteq> i) ?tags = remove1 tag ?tags"
      using filter_neq_remove1 [OF dist mem] tid by simp
    with a show "delete_domain_tag st i = (st\<lparr>domain_tags := remove1 tag ?tags\<rparr>, Inr ())"
      by (simp add: delete_domain_tag_def)
  qed
  have p4: "\<forall>t. t \<in> set ?tags \<and> t \<notin> set (domain_tags (fst (delete_domain_tag st i))) \<longrightarrow>
            tag_id t = i \<and> tag_source t = ''user'' \<and> snd (delete_domain_tag st i) = Inr ()"
    if wf: "wf_tags ?tags"
  proof (intro allI impI)
    fix t assume a: "t \<in> set ?tags \<and> t \<notin> set (domain_tags (fst (delete_domain_tag st i)))"
    from wf have dist: "distinct (map tag_id ?tags)"
      and src: "list_all (\<lambda>t. tag_source t = ''system'' \<or> tag_source t = ''user'') ?tags"
      by (simp_all add: wf_tags_def)
    show "tag_id t = i \<and> tag_source t = ''user'' \<and> snd (delete_domain_tag st i) = Inr ()"
    proof (cases ?f)
      case None
      with a show ?thesis by (simp add: delete_domain_tag_def)
    next
      case (Some tag)
      show ?thesis
      proof (cases "tag_source tag = ''system''")
        case True
        with a Some show ?thesis by (simp add: delete_domain_tag_def)
      next
        case False
        with a Some have tid: "tag_id t = i" by (auto simp: delete_domain_tag_def)
        with a dist have "?f = Some t" using find_tag_id_unique [of ?tags t] by auto
        with Some have "tag = t" by simp
        with False src a have "tag_source t = ''user''" by (auto simp: list_all_iff)
        with tid Some False show ?thesis by (simp add: delete_domain_tag_def)
      qed
    qed
  qed
  from p1 p2 p3 p4 show ?thesis by blast
qed

section \<open>The LIKE pattern of the retroactive update\<close>

lemma like_percent:
  "like_match (CHR ''%'' # q) s = (\<exists>k\<le>length s. like_match q (drop k s))"
proof (induction s)
  case Nil
  then show ?case by simp
next
  case (Cons x xs)
  have "(\<exists>k\<le>length (x # xs). like_match q (drop k (x # xs))) =
        (like_match q (x # xs) \<or> (\<exists>k\<le>length xs. like_match q (drop k xs)))"
  proof
    assume "\<exists>k\<le>length (x # xs). like_match q (drop k (x # xs))"
    then obtain k where k: "k \<le> length (x # xs)" "like_match q (drop k (x # xs))" by blast
    show "like_match q (x # xs) \<or> (\<exists>k\<le>length xs. like_match q (drop k xs))"
    proof (cases k)
      case 0
      with k show ?thesis by simp
    next
      case (Suc j)
      with k show ?thesis by auto
    qed
  next
    assume "like_match q (x # xs) \<or> (\<exists>k\<le>length xs. like_match q (drop k xs))"
    then show "\<exists>k\<le>length (x # xs). like_match q (drop k (x # xs))"
    proof
      assume "like_match q (x # xs)"
      then have "like_match q (drop 0 (x # xs))" by simp
      then show ?thesis by blast
    next
      assume "\<exists>k\<le>length xs. like_match q (drop k xs)"
      then obtain k where "k \<le> length xs" "like_match q (drop k xs)" by blast
      then have "Suc k \<le> length (x # xs)" "like_match q (drop (Suc k) (x # xs))" by simp_all
      then show ?thesis by blast
    qed
  qed
  with Cons show ?case by simp
qed

lemma like_plain:
  "CHR ''%'' \<notin> set q \<Longrightarrow> CHR ''_'' \<notin> set q \<Longrightarrow>
   like_match q s = (toLowerCase q = toLowerCase s)"
proof (induction q s rule: like_match.induct)
  case 1
  then show ?case by (simp add: toLowerCase_def)
next
  case (2 x xs)
  then show ?case by (simp add: toLowerCase_def)
next
  case (3 p ps)
  then show ?case by (auto simp: toLowerCase_def)
next
  case (4 p ps x xs)
  then show ?case by (auto simp: toLowerCase_def)
qed

lemma suffix_iff_drop: "suffix a b = (\<exists>k\<le>length b. a = drop k b)"
proof
  assume "suffix a b"
  then obtain z where "b = z @ a" by (auto simp: suffix_def)
  then have "a = drop (length z) b" "length z \<le> length b" by simp_all
  then show "\<exists>k\<le>length b. a = drop k b" by blast
next
  assume "\<exists>k\<le>length b. a = drop k b"
  then show "suffix a b" by (auto simp: suffix_drop)
qed

lemma like_suffix:
  assumes "CHR ''%'' \<notin> set q" and "CHR ''_'' \<notin> set q"
  shows "like_match (CHR ''%'' # q) s = suffix (toLowerCase q) (toLowerCase s)"
proof -
  have "like_match (CHR ''%'' # q) s = (\<exists>k\<le>length s. toLowerCase q = toLowerCase (drop k s))"
    by (simp add: like_percent like_plain [OF assms])
  also have "\<dots> = (\<exists>k\<le>length (toLowerCase s). toLowerCase q = drop k (toLowerCase s))"
    by (simp add: toLowerCase_def drop_map)
  also have "\<dots> = suffix (toLowerCase q) (toLowerCase s)"
    by (simp add: suffix_iff_drop)
  finally show ?thesis .
qed

lemma wf_example: "wf_tags (domain_tags example_store)"
  by code_simp

lemma until_nul_id: "CHR 0x00 \<notin> set s \<Longrightarrow> until_nul s = s"
  by (simp add: until_nul_def takeWhile_eq_all_conv) blast

lemma sql_like_suffix:
  assumes "CHR ''%'' \<notin> set q" and "CHR ''_'' \<notin> set q" and "CHR 0x00 \<notin> set q"
  shows "sql_like (CHR ''%'' # q) v = suffix (toLowerCase q) (toLowerCase (until_nul v))"
proof -
  have "CHR 0x00 \<notin> set (CHR ''%'' # q)" using assms(3) by simp
  then have "until_nul (CHR ''%'' # q) = CHR ''%'' # q" by (rule until_nul_id)
  then show ?thesis by (simp add: sql_like_def like_suffix [OF assms(1,2)])
qed

section \<open>Upserting a tag\<close>

lemma find_append_none: "list_all (\<lambda>x. \<not> P x) xs \<Longrightarrow> find P (xs @ ys) = find P ys"
  by (induction xs) auto

lemma find_map_update:
  assumes "d \<in> set (map tag_domain tags)"
  shows "\<exists>t\<in>set tags. tag_domain t = d \<and>
           find (\<lambda>t. tag_domain t = d)
             (map (\<lambda>t. if tag_domain t = d then t\<lparr>tag_category := c, tag_source := ''user''\<rparr> else t) tags)
           = Some (t\<lparr>tag_category := c, tag_source := ''user''\<rparr>)"
  using assms by (induction tags) auto

lemma upsert_find:
  "\<exists>tag. find (\<lambda>t. tag_domain t = d) (fst (upsert_tag tags seq d c)) = Some tag
         \<and> tag_source tag = ''user'' \<and> tag_category tag = c \<and> tag_domain tag = d"
proof (cases "d \<in> set (map tag_domain tags)")
  case True
  from find_map_update [OF True, of c] show ?thesis
    using True by (auto simp: upsert_tag_def Let_def)
next
  case False
  then have "list_all (\<lambda>t. \<not> tag_domain t = d) tags" by (auto simp: list_all_iff)
  then show ?thesis using False by (simp add: upsert_tag_def Let_def find_append_none)
qed

lemma upsert_seq: "snd (upsert_tag tags seq d c) = next_rowid seq (map tag_id tags)"
  by (simp add: upsert_tag_def Let_def)

lemma upsert_ids_le:
  "\<forall>x\<in>set (map tag_id (fst (upsert_tag tags seq d c))). x \<le> snd (upsert_tag tags seq d c)"
proof -
  have old: "\<forall>x\<in>set (map tag_id tags). x \<le> next_rowid seq (map tag_id tags)"
  proof
    fix x assume "x \<in> set (map tag_id tags)"
    then have "x \<le> fold max (map tag_id tags) 0" by (rule fold_max_ge)
    then show "x \<le> next_rowid seq (map tag_id tags)" by (simp add: next_rowid_def)
  qed
  show ?thesis
  proof (cases "d \<in> set (map tag_domain tags)")
    case True
    have "map tag_id (map (\<lambda>t. if tag_domain t = d
        then t\<lparr>tag_category := c, tag_source := ''user''\<rparr> else t) tags) = map tag_id tags"
      by (induction tags) auto
    with True old show ?thesis by (simp add: upsert_tag_def Let_def del: map_map)
  next
    case False
    with old show ?thesis by (auto simp: upsert_tag_def Let_def)
  qed
qed

lemma upsert_rows_idem:
  "fst (upsert_tag (fst (upsert_tag tags seq d c)) seq' d c) = fst (upsert_tag tags seq d c)"
proof (cases "d \<in> set (map tag_domain tags)")
  case True
  let ?f = "\<lambda>t. if tag_domain t = d then t\<lparr>tag_category := c, tag_source := ''user''\<rparr> else t"
  have dom: "map tag_domain (map ?f tags) = map tag_domain tags"
    by (induction tags) auto
  have "map ?f (map ?f tags) = map ?f tags"
    by (induction tags) auto
  with True dom show ?thesis by (simp add: upsert_tag_def Let_def del: map_map)
next
  case False
  then have "map (\<lambda>t. if tag_domain t = d then t\<lparr>tag_category := c, tag_source := ''user''\<rparr> else t) tags = tags"
    by (induction tags) auto
  with False show ?thesis by (simp add: upsert_tag_def Let_def)
qed

text \<open>A second upsert of the same tag takes the next row id from the sequence.\<close>

lemma upsert_seq_twice:
  "snd (upsert_tag (fst (upsert_tag tags seq d c)) (snd (upsert_tag tags seq d c)) d c)
     = Suc (snd (upsert_tag tags seq d c))"
proof -
  let ?ids1 = "map tag_id (fst (upsert_tag tags seq d c))"
  let ?seq1 = "snd (upsert_tag tags seq d c)"
  have "fold max ?ids1 0 \<le> max ?seq1 0"
    using upsert_ids_le [of tags seq d c] by (rule fold_max_le)
  then have "max ?seq1 (fold max ?ids1 0) = ?seq1" by simp
  then show ?thesis by (simp add: upsert_seq [of "fst (upsert_tag tags seq d c)"] next_rowid_def)
qed

lemma wf_tags_upsert: "wf_tags tags \<Longrightarrow> wf_tags (fst (upsert_tag tags seq d c))"
proof (cases "d \<in> set (map tag_domain tags)")
  case True
  assume wf: "wf_tags tags"
  let ?f = "\<lambda>t. if tag_domain t = d then t\<lparr>tag_category := c, tag_source := ''user''\<rparr> else t"
  have "map tag_domain (map ?f tags) = map tag_domain tags" "map tag_id (map ?f tags) = map tag_id tags"
    by (induction tags) auto
  moreover have "list_all (\<lambda>t. tag_source t = ''system'' \<or> tag_source t = ''user'') (map ?f tags)"
    using wf by (auto simp: wf_tags_def list_all_iff)
  ultimately show ?thesis using wf True by (simp add: wf_tags_def upsert_tag_def Let_def del: map_map)
next
  case False
  assume wf: "wf_tags tags"
  with False show ?thesis
    using next_rowid_notin [of seq "map tag_id tags"] by (auto simp: wf_tags_def upsert_tag_def Let_def)
qed

text \<open>The handler for a request that passes the validation, statement by statement.\<close>

lemma post_domain_tags_valid:
  assumes "trim domain \<noteq> []" and "trim category \<noteq> []"
    and "d = strip_www (toLowerCase (trim domain))"
    and "up = upsert_tag (domain_tags st) (domain_tags_seq st) d category"
    and "u1 = update_unknown (\<lambda>x. x = d) category (citations st)"
    and "u2 = update_unknown (sql_like (''%.'' @ d)) category (fst u1)"
    and "too = (citations st \<noteq> [] \<and> LIKE_PATTERN_LIMIT < int (length (''%.'' @ d)))"
  shows "post_domain_tags st domain category =
     (st\<lparr>domain_tags := fst up, domain_tags_seq := snd up,
         citations := (if too then fst u1 else fst u2)\<rparr>,
      if too then Inl (ServerError ''LIKE or GLOB pattern too complex'')
      else Inr (find (\<lambda>t. tag_domain t = d) (fst up), snd u1 + snd u2))"
proof -
  have ne: "(fst u1 \<noteq> []) = (citations st \<noteq> [])"
    unfolding assms(5) by (simp add: update_unknown_def)
  show ?thesis
  proof (cases too)
    case True
    then have "update_unknown_like (''%.'' @ d) category (fst u1)
        = Inl ''LIKE or GLOB pattern too complex''"
      using ne assms(7) by (simp add: update_unknown_like_def)
    with True show ?thesis
      using assms(1,2) unfolding post_domain_tags_def Let_def
      by (simp add: assms(3,4,5) [symmetric])
  next
    case False
    then have "update_unknown_like (''%.'' @ d) category (fst u1) = Inr u2"
      using ne assms(7) by (simp add: update_unknown_like_def assms(6))
    with False show ?thesis
      using assms(1,2) unfolding post_domain_tags_def Let_def
      by (simp add: assms(3,4,5) [symmetric])
  qed
qed

lemma delete_domain_tag_user:
  assumes "wf_tags (domain_tags st)"
    and "find (\<lambda>t. tag_id t = i) (domain_tags st) = Some tag"
    and "tag_source tag = ''user''"
  shows "delete_domain_tag st i = (st\<lparr>domain_tags := remove1 tag (domain_tags st)\<rparr>, Inr ())"
proof -
  from assms(1) have dist: "distinct (map tag_id (domain_tags st))" by (simp add: wf_tags_def)
  from find_Some_mem [OF assms(2)] have mem: "tag \<in> set (domain_tags st)" and tid: "tag_id tag = i"
    by simp_all
  have "filter (\<lambda>t. tag_id t \<noteq> i) (domain_tags st) = remove1 tag (domain_tags st)"
    using filter_neq_remove1 [OF dist mem] tid by simp
  with assms(2,3) show ?thesis by (simp add: delete_domain_tag_def)
qed

text \<open>
  C9. A tag upsert records provenance \<open>user\<close>, also over a seeded tag: after a valid
  \<^verbatim>\<open>POST /api/domain-tags\<close> the tag of the normalised domain has the submitted category and
  provenance \<open>user\<close>, and deleting it by its id succeeds and removes it. The response
  carries this tag; only when the retroactive \<^verbatim>\<open>LIKE\<close> statement throws (a pattern over the
  store's limit, on a citation table with rows) is the response the error, with the tag
  stored all the same.
\<close>

theorem upsert_records_user:
  assumes "wf_tags (domain_tags st)" and "trim domain \<noteq> []" and "trim category \<noteq> []"
  shows "\<exists>tag n.
           snd (post_domain_tags st domain category) =
             (if citations st \<noteq> [] \<and>
                 LIKE_PATTERN_LIMIT < int (length (''%.'' @ strip_www (toLowerCase (trim domain))))
              then Inl (ServerError ''LIKE or GLOB pattern too complex'')
              else Inr (Some tag, n))
         \<and> find (\<lambda>t. tag_domain t = strip_www (toLowerCase (trim domain)))
              (domain_tags (fst (post_domain_tags st domain category))) = Some tag
         \<and> tag_source tag = ''user'' \<and> tag_category tag = category
         \<and> delete_domain_tag (fst (post_domain_tags st domain category)) (tag_id tag) =
             ((fst (post_domain_tags st domain category))
                \<lparr>domain_tags := remove1 tag (domain_tags (fst (post_domain_tags st domain category)))\<rparr>,
              Inr ())"
proof -
  define d where "d = strip_www (toLowerCase (trim domain))"
  define up where "up = upsert_tag (domain_tags st) (domain_tags_seq st) d category"
  define u1 where "u1 = update_unknown (\<lambda>x. x = d) category (citations st)"
  define u2 where "u2 = update_unknown (sql_like (''%.'' @ d)) category (fst u1)"
  define too where "too = (citations st \<noteq> [] \<and> LIKE_PATTERN_LIMIT < int (length (''%.'' @ d)))"
  define st' where "st' = fst (post_domain_tags st domain category)"
  note post = post_domain_tags_valid [OF assms(2,3) d_def up_def u1_def u2_def too_def]
  have tags': "domain_tags st' = fst up"
    unfolding st'_def post by simp
  obtain tag where tag: "find (\<lambda>t. tag_domain t = d) (fst up) = Some tag"
    "tag_source tag = ''user''" "tag_category tag = category"
    using upsert_find [of d "domain_tags st" "domain_tags_seq st" category]
    unfolding up_def by blast
  have resp: "snd (post_domain_tags st domain category) =
      (if too then Inl (ServerError ''LIKE or GLOB pattern too complex'')
       else Inr (Some tag, snd u1 + snd u2))"
    unfolding post using tag(1) by simp
  have wf': "wf_tags (domain_tags st')"
    unfolding tags' up_def using assms(1) by (rule wf_tags_upsert)
  have mem: "tag \<in> set (domain_tags st')"
    using find_Some_mem [OF tag(1)] tags' by simp
  have "find (\<lambda>t. tag_id t = tag_id tag) (domain_tags st') = Some tag"
    using wf' mem by (simp add: wf_tags_def find_tag_id_unique)
  from delete_domain_tag_user [OF wf' this tag(2)]
  have del: "delete_domain_tag st' (tag_id tag) =
      (st'\<lparr>domain_tags := remove1 tag (domain_tags st')\<rparr>, Inr ())" .
  have "snd (post_domain_tags st domain category) =
             (if citations st \<noteq> [] \<and> LIKE_PATTERN_LIMIT < int (length (''%.'' @ d))
              then Inl (ServerError ''LIKE or GLOB pattern too complex'')
              else Inr (Some tag, snd u1 + snd u2))
         \<and> find (\<lambda>t. tag_domain t = d) (domain_tags st') = Some tag
         \<and> tag_source tag = ''user'' \<and> tag_category tag = category
         \<and> delete_domain_tag st' (tag_id tag) =
             (st'\<lparr>domain_tags := remove1 tag (domain_tags st')\<rparr>, Inr ())"
    using resp tag tags' del unfolding too_def by simp
  then show ?thesis unfolding d_def st'_def by blast
qed

theorem upsert_records_user_witness:
  "snd (post_domain_tags example_store '' WWW.CoinDesk.com'' ''exchange'') =
     Inr (Some \<lparr>tag_id = 1, tag_domain = ''coindesk.com'', tag_category = ''exchange'',
                 tag_source = ''user''\<rparr>, 0)
   \<and> snd (delete_domain_tag (fst (post_domain_tags example_store '' WWW.CoinDesk.com'' ''exchange'')) 1)
       = Inr ()"
proof -
  have h1: "trim '' WWW.CoinDesk.com'' \<noteq> []" by code_simp
  have h2: "trim ''exchange'' \<noteq> []" by code_simp
  have r: "snd (post_domain_tags example_store '' WWW.CoinDesk.com'' ''exchange'') =
     Inr (Some \<lparr>tag_id = 1, tag_domain = ''coindesk.com'', tag_category = ''exchange'',
                 tag_source = ''user''\<rparr>, 0)"
    by code_simp
  have short: "\<not> (citations example_store \<noteq> [] \<and>
      LIKE_PATTERN_LIMIT < int (length (''%.'' @ strip_www (toLowerCase (trim '' WWW.CoinDesk.com'')))))"
    by code_simp
  from upsert_records_user [OF wf_example h1 h2] obtain tag n where
    t: "snd (post_domain_tags example_store '' WWW.CoinDesk.com'' ''exchange'') =
         (if citations example_store \<noteq> [] \<and>
             LIKE_PATTERN_LIMIT < int (length (''%.'' @ strip_www (toLowerCase (trim '' WWW.CoinDesk.com''))))
          then Inl (ServerError ''LIKE or GLOB pattern too complex'')
          else Inr (Some tag, n))"
    and d: "delete_domain_tag (fst (post_domain_tags example_store '' WWW.CoinDesk.com'' ''exchange''))
         (tag_id tag) =
       ((fst (post_domain_tags example_store '' WWW.CoinDesk.com'' ''exchange''))
          \<lparr>domain_tags := remove1 tag
             (domain_tags (fst (post_domain_tags example_store '' WWW.CoinDesk.com'' ''exchange'')))\<rparr>,
        Inr ())"
    by blast
  from t short have "snd (post_domain_tags example_store '' WWW.CoinDesk.com'' ''exchange'')
      = Inr (Some tag, n)"
    by (simp only: if_False)
  with r have "tag_id tag = 1" by auto
  with d have "snd (delete_domain_tag
      (fst (post_domain_tags example_store '' WWW.CoinDesk.com'' ''exchange'')) 1) = Inr ()"
    by simp
  with r show ?thesis by blast
qed

section \<open>Retroactive recategorisation\<close>

lemma update_unknown_noop:
  "list_all (\<lambda>r. \<not> (cond (cit_domain r) \<and> cit_category r = ''unknown'')) cits \<Longrightarrow>
   update_unknown cond c cits = (cits, 0)"
  by (induction cits) (auto simp: update_unknown_def)

lemma update_unknown_clears:
  "c \<noteq> ''unknown'' \<Longrightarrow>
   list_all (\<lambda>r. \<not> (cond (cit_domain r) \<and> cit_category r = ''unknown''))
     (fst (update_unknown cond c cits))"
  by (induction cits) (auto simp: update_unknown_def)

lemma update_unknown_keeps:
  "c \<noteq> ''unknown'' \<Longrightarrow>
   list_all (\<lambda>r. \<not> (P (cit_domain r) \<and> cit_category r = ''unknown'')) cits \<Longrightarrow>
   list_all (\<lambda>r. \<not> (P (cit_domain r) \<and> cit_category r = ''unknown''))
     (fst (update_unknown cond c cits))"
  by (induction cits) (auto simp: update_unknown_def)

lemma update_unknown_same: "fst (update_unknown cond ''unknown'' cits) = cits"
  by (induction cits) (auto simp: update_unknown_def)

lemma update_unknown_Nil_iff: "(fst (update_unknown cond c cits) = []) = (cits = [])"
  by (simp add: update_unknown_def)

text \<open>
  C4, as the code has it. Running the upsert with its retroactive recategorisation a second
  time with the same tag leaves the rows of every table as the first run left them, for
  every category; the store as a whole is not the same, since every run of a valid request
  takes a row id from the sequence of the tag table (a request that is refused as invalid
  leaves the store as it is). When the category is not \<open>unknown\<close>
  and the first run answered with a tag and a count, the second run answers with the same
  tag and reports 0 rows changed.
\<close>

theorem retroactive_idempotent:
  assumes "st1 = fst (post_domain_tags st domain category)"
    and "st2 = fst (post_domain_tags st1 domain category)"
  shows "clients st2 = clients st1 \<and> queries st2 = queries st1
       \<and> runs st2 = runs st1 \<and> runs_seq st2 = runs_seq st1
       \<and> citations st2 = citations st1 \<and> citations_seq st2 = citations_seq st1
       \<and> domain_tags st2 = domain_tags st1
       \<and> (trim domain \<noteq> [] \<and> trim category \<noteq> [] \<longrightarrow>
            domain_tags_seq st2 = Suc (domain_tags_seq st1))
       \<and> (trim domain = [] \<or> trim category = [] \<longrightarrow> st2 = st \<and> st1 = st)
       \<and> (category \<noteq> ''unknown'' \<longrightarrow>
            (\<forall>tag n. snd (post_domain_tags st domain category) = Inr (tag, n) \<longrightarrow>
               snd (post_domain_tags st1 domain category) = Inr (tag, 0)))"
proof (cases "trim domain = [] \<or> trim category = []")
  case True
  then have "post_domain_tags st domain category
      = (st, Inl (ValidationError ''Domain and category are required''))"
    by (auto simp: post_domain_tags_def)
  with assms(1) have s1: "st1 = st" by simp
  from True have "post_domain_tags st1 domain category
      = (st1, Inl (ValidationError ''Domain and category are required''))"
    by (auto simp: post_domain_tags_def)
  with assms(2) have "st2 = st1" by simp
  with True s1 show ?thesis by (auto simp: post_domain_tags_def)
next
  case False
  then have v: "trim domain \<noteq> []" "trim category \<noteq> []" by simp_all
  define d where "d = strip_www (toLowerCase (trim domain))"
  define up where "up = upsert_tag (domain_tags st) (domain_tags_seq st) d category"
  define u1 where "u1 = update_unknown (\<lambda>x. x = d) category (citations st)"
  define u2 where "u2 = update_unknown (sql_like (''%.'' @ d)) category (fst u1)"
  define too where "too = (citations st \<noteq> [] \<and> LIKE_PATTERN_LIMIT < int (length (''%.'' @ d)))"
  define c1 where "c1 = (if too then fst u1 else fst u2)"
  define up' where "up' = upsert_tag (domain_tags st1) (domain_tags_seq st1) d category"
  define u1' where "u1' = update_unknown (\<lambda>x. x = d) category (citations st1)"
  define u2' where "u2' = update_unknown (sql_like (''%.'' @ d)) category (fst u1')"
  define too' where
    "too' = (citations st1 \<noteq> [] \<and> LIKE_PATTERN_LIMIT < int (length (''%.'' @ d)))"
  note post1 = post_domain_tags_valid [OF v d_def up_def u1_def u2_def too_def]
  note post2 = post_domain_tags_valid [OF v d_def up'_def u1'_def u2'_def too'_def]
  have st1: "st1 = st\<lparr>domain_tags := fst up, domain_tags_seq := snd up, citations := c1\<rparr>"
    unfolding assms(1) post1 c1_def by simp
  have r1: "snd (post_domain_tags st domain category) =
      (if too then Inl (ServerError ''LIKE or GLOB pattern too complex'')
       else Inr (find (\<lambda>t. tag_domain t = d) (fst up), snd u1 + snd u2))"
    unfolding post1 by simp
  have st2: "st2 = st1\<lparr>domain_tags := fst up', domain_tags_seq := snd up',
      citations := (if too' then fst u1' else fst u2')\<rparr>"
    unfolding assms(2) post2 by simp
  have r2: "snd (post_domain_tags st1 domain category) =
      (if too' then Inl (ServerError ''LIKE or GLOB pattern too complex'')
       else Inr (find (\<lambda>t. tag_domain t = d) (fst up'), snd u1' + snd u2'))"
    unfolding post2 by simp
  have tags1: "domain_tags st1 = fst up" and seq1: "domain_tags_seq st1 = snd up"
    and cits1: "citations st1 = c1"
    unfolding st1 by simp_all
  have rows: "fst up' = fst up"
    unfolding up'_def tags1 up_def by (rule upsert_rows_idem)
  have seq: "snd up' = Suc (snd up)"
    unfolding up'_def tags1 seq1 up_def by (rule upsert_seq_twice)
  have c1_ne: "(c1 = []) = (citations st = [])"
    unfolding c1_def u2_def u1_def by (simp add: update_unknown_Nil_iff)
  have too_eq: "too' = too"
    unfolding too'_def too_def cits1 using c1_ne by simp
  have fix1: "fst u1' = c1" and fix2: "\<not> too \<Longrightarrow> fst u2' = c1"
    and cnt: "category \<noteq> ''unknown'' \<Longrightarrow> \<not> too \<Longrightarrow> snd u1' + snd u2' = 0"
  proof -
    show "fst u1' = c1"
    proof (cases "category = ''unknown''")
      case True
      then show ?thesis unfolding u1'_def cits1 by (simp add: update_unknown_same)
    next
      case neq: False
      have "list_all (\<lambda>r. \<not> (cit_domain r = d \<and> cit_category r = ''unknown'')) (fst u1)"
        unfolding u1_def using update_unknown_clears [OF neq, of "\<lambda>x. x = d" "citations st"]
        by simp
      moreover from this
      have "list_all (\<lambda>r. \<not> (cit_domain r = d \<and> cit_category r = ''unknown'')) (fst u2)"
        unfolding u2_def
        using update_unknown_keeps [OF neq, of "\<lambda>x. x = d" "fst u1" "sql_like (''%.'' @ d)"]
        by simp
      ultimately have "list_all (\<lambda>r. \<not> (cit_domain r = d \<and> cit_category r = ''unknown'')) c1"
        unfolding c1_def by simp
      then show ?thesis
        unfolding u1'_def cits1
        using update_unknown_noop [of "\<lambda>x. x = d" c1 category] by simp
    qed
    then have u1c: "fst u1' = c1" .
    show "fst u2' = c1" if nt: "\<not> too"
    proof (cases "category = ''unknown''")
      case True
      then show ?thesis unfolding u2'_def u1c by (simp add: update_unknown_same)
    next
      case neq: False
      from nt have "c1 = fst u2" unfolding c1_def by simp
      then have "list_all (\<lambda>r. \<not> (sql_like (''%.'' @ d) (cit_domain r)
          \<and> cit_category r = ''unknown'')) c1"
        unfolding u2_def
        using update_unknown_clears [OF neq, of "sql_like (''%.'' @ d)" "fst u1"] by simp
      then show ?thesis
        unfolding u2'_def u1c
        using update_unknown_noop [of "sql_like (''%.'' @ d)" c1 category] by simp
    qed
    show "snd u1' + snd u2' = 0" if neq: "category \<noteq> ''unknown''" and nt: "\<not> too"
    proof -
      have a: "list_all (\<lambda>r. \<not> (cit_domain r = d \<and> cit_category r = ''unknown'')) (fst u1)"
        unfolding u1_def using update_unknown_clears [OF neq, of "\<lambda>x. x = d" "citations st"]
        by simp
      from nt have c1u2: "c1 = fst u2" unfolding c1_def by simp
      have b: "list_all (\<lambda>r. \<not> (cit_domain r = d \<and> cit_category r = ''unknown'')) c1"
        unfolding c1u2 u2_def
        using update_unknown_keeps [OF neq, of "\<lambda>x. x = d" "fst u1" "sql_like (''%.'' @ d)"] a
        by simp
      have c: "list_all (\<lambda>r. \<not> (sql_like (''%.'' @ d) (cit_domain r)
          \<and> cit_category r = ''unknown'')) c1"
        unfolding c1u2 u2_def
        using update_unknown_clears [OF neq, of "sql_like (''%.'' @ d)" "fst u1"] by simp
      have "u1' = (c1, 0)"
        unfolding u1'_def cits1 using update_unknown_noop [of "\<lambda>x. x = d" c1 category] b
        by simp
      moreover from this have "u2' = (c1, 0)"
        unfolding u2'_def using update_unknown_noop [of "sql_like (''%.'' @ d)" c1 category] c
        by simp
      ultimately show ?thesis by simp
    qed
  qed
  have cits2: "citations st2 = c1"
    unfolding st2 too_eq using fix1 fix2 by simp
  have frame: "clients st2 = clients st1 \<and> queries st2 = queries st1
       \<and> runs st2 = runs st1 \<and> runs_seq st2 = runs_seq st1
       \<and> citations_seq st2 = citations_seq st1"
    unfolding st2 by simp
  have tags2: "domain_tags st2 = domain_tags st1"
    unfolding st2 tags1 using rows by simp
  have seq2: "domain_tags_seq st2 = Suc (domain_tags_seq st1)"
    unfolding st2 seq1 using seq by simp
  have count: "category \<noteq> ''unknown'' \<longrightarrow>
            (\<forall>tag n. snd (post_domain_tags st domain category) = Inr (tag, n) \<longrightarrow>
               snd (post_domain_tags st1 domain category) = Inr (tag, 0))"
  proof (intro impI allI)
    fix tag n
    assume neq: "category \<noteq> ''unknown''"
      and first: "snd (post_domain_tags st domain category) = Inr (tag, n)"
    from first r1 have nt: "\<not> too" by (cases too) simp_all
    with first r1 have tag: "tag = find (\<lambda>t. tag_domain t = d) (fst up)" by simp
    from nt too_eq r2 cnt [OF neq nt] rows tag
    show "snd (post_domain_tags st1 domain category) = Inr (tag, 0)" by simp
  qed
  from frame cits2 cits1 tags2 seq2 count False show ?thesis by simp
qed

theorem retroactive_idempotent_witness:
  "citations (fst (post_domain_tags (fst (post_domain_tags example_store ''Example.com'' ''news''))
          ''Example.com'' ''news''))
     = citations (fst (post_domain_tags example_store ''Example.com'' ''news''))
   \<and> domain_tags (fst (post_domain_tags (fst (post_domain_tags example_store ''Example.com'' ''news''))
          ''Example.com'' ''news''))
     = domain_tags (fst (post_domain_tags example_store ''Example.com'' ''news''))
   \<and> domain_tags_seq (fst (post_domain_tags example_store ''Example.com'' ''news'')) = 3
   \<and> domain_tags_seq (fst (post_domain_tags (fst (post_domain_tags example_store ''Example.com'' ''news''))
          ''Example.com'' ''news'')) = 4
   \<and> snd (post_domain_tags example_store ''Example.com'' ''news'')
     = Inr (Some \<lparr>tag_id = 3, tag_domain = ''example.com'', tag_category = ''news'',
                   tag_source = ''user''\<rparr>, 1)
   \<and> snd (post_domain_tags (fst (post_domain_tags example_store ''Example.com'' ''news''))
          ''Example.com'' ''news'')
     = Inr (Some \<lparr>tag_id = 3, tag_domain = ''example.com'', tag_category = ''news'',
                   tag_source = ''user''\<rparr>, 0)"
proof -
  have ne: "''news'' \<noteq> ''unknown''" by simp
  have v: "trim ''Example.com'' \<noteq> [] \<and> trim ''news'' \<noteq> []" by code_simp
  have r: "snd (post_domain_tags example_store ''Example.com'' ''news'')
     = Inr (Some \<lparr>tag_id = 3, tag_domain = ''example.com'', tag_category = ''news'',
                   tag_source = ''user''\<rparr>, 1)"
    by code_simp
  have s: "domain_tags_seq (fst (post_domain_tags example_store ''Example.com'' ''news'')) = 3"
    by code_simp
  from retroactive_idempotent [OF refl refl, of example_store "''Example.com''" "''news''"] ne r v s
  show ?thesis by simp
qed

text \<open>
  The claim C4 as written fails for the category \<open>unknown\<close>: the rows the statements select
  are counted again by the second run. And after every second run the sequence of the tag
  table has moved on.
\<close>

theorem retroactive_unknown_counterexample:
  "snd (post_domain_tags example_store ''example.com'' ''unknown'')
     = Inr (Some \<lparr>tag_id = 3, tag_domain = ''example.com'', tag_category = ''unknown'',
                   tag_source = ''user''\<rparr>, 1)
   \<and> snd (post_domain_tags (fst (post_domain_tags example_store ''example.com'' ''unknown''))
          ''example.com'' ''unknown'')
     = Inr (Some \<lparr>tag_id = 3, tag_domain = ''example.com'', tag_category = ''unknown'',
                   tag_source = ''user''\<rparr>, 1)
   \<and> domain_tags_seq (fst (post_domain_tags example_store ''example.com'' ''unknown'')) = 3
   \<and> domain_tags_seq (fst (post_domain_tags
        (fst (post_domain_tags example_store ''example.com'' ''unknown''))
          ''example.com'' ''unknown'')) = 4"
  by code_simp

text \<open>
  C3, at a tag whose domain holds an underscore. The stored citation of \<open>x.abc.com\<close> is
  \<open>unknown\<close>; its domain is not \<open>a_c.com\<close> and does not end with \<open>.a_c.com\<close>; the upsert
  of the tag \<open>(a_c.com, news)\<close> rewrites its category to \<open>news\<close>.
\<close>

theorem retroactive_wildcard_rewrites_other_row:
  "map (\<lambda>r. (cit_domain r, cit_category r)) (citations example_store)
     = [(''example.com'', ''unknown''), (''blog.example.com'', ''social''),
        (''x.abc.com'', ''unknown'')]
   \<and> ''x.abc.com'' \<noteq> ''a_c.com'' \<and> \<not> endsWith ''x.abc.com'' ''.a_c.com''
   \<and> map (\<lambda>r. (cit_domain r, cit_category r))
        (citations (fst (post_domain_tags example_store ''a_c.com'' ''news'')))
     = [(''example.com'', ''unknown''), (''blog.example.com'', ''social''),
        (''x.abc.com'', ''news'')]
   \<and> snd (post_domain_tags example_store ''a_c.com'' ''news'')
     = Inr (Some \<lparr>tag_id = 3, tag_domain = ''a_c.com'', tag_category = ''news'',
                   tag_source = ''user''\<rparr>, 1)"
  by code_simp

text \<open>
  The retroactive update for a tag whose normalised domain has no \<^verbatim>\<open>%\<close>, no \<^verbatim>\<open>_\<close> and no
  NUL and whose pattern is within the limit: the \<open>unknown\<close> citations of the domain and of
  its subdomains get the category, every other row is passed on as it is, and only the
  category column is written.
\<close>

lemma retroactive_without_wildcards:
  assumes "trim domain \<noteq> []" and "trim category \<noteq> []"
    and "d = strip_www (toLowerCase (trim domain))"
    and "CHR ''%'' \<notin> set d" and "CHR ''_'' \<notin> set d" and "CHR 0x00 \<notin> set d"
    and "int (length (''%.'' @ d)) \<le> LIKE_PATTERN_LIMIT"
  shows "citations (fst (post_domain_tags st domain category)) =
           map (\<lambda>r. if cit_category r = ''unknown'' \<and>
                        (cit_domain r = d \<or>
                         suffix (toLowerCase (CHR ''.'' # d)) (toLowerCase (until_nul (cit_domain r))))
                     then r\<lparr>cit_category := category\<rparr> else r) (citations st)"
proof -
  have q: "CHR ''%'' \<notin> set (CHR ''.'' # d)" "CHR ''_'' \<notin> set (CHR ''.'' # d)"
      "CHR 0x00 \<notin> set (CHR ''.'' # d)"
    using assms(4,5,6) by simp_all
  have lk: "sql_like (''%.'' @ d) =
      (\<lambda>v. suffix (toLowerCase (CHR ''.'' # d)) (toLowerCase (until_nul v)))"
    using sql_like_suffix [OF q] by (simp add: fun_eq_iff)
  have nt: "(citations st \<noteq> [] \<and> LIKE_PATTERN_LIMIT < int (length (''%.'' @ d))) = False"
    using assms(7) by auto
  have "citations (fst (post_domain_tags st domain category)) =
      fst (update_unknown (sql_like (''%.'' @ d)) category
        (fst (update_unknown (\<lambda>x. x = d) category (citations st))))"
    unfolding post_domain_tags_valid [OF assms(1,2,3) refl refl refl refl] nt by simp
  also have "\<dots> = map (\<lambda>r. if cit_category r = ''unknown'' \<and>
                        (cit_domain r = d \<or>
                         suffix (toLowerCase (CHR ''.'' # d)) (toLowerCase (until_nul (cit_domain r))))
                     then r\<lparr>cit_category := category\<rparr> else r) (citations st)"
    unfolding lk update_unknown_def by (induction "citations st") auto
  finally show ?thesis .
qed

text \<open>
  With a pattern over the limit and a citation table with rows, the request stores the tag,
  runs the first \<^verbatim>\<open>UPDATE\<close>, and answers with the error of the second.
\<close>

lemma retroactive_pattern_too_long:
  assumes "trim domain \<noteq> []" and "trim category \<noteq> []"
    and "d = strip_www (toLowerCase (trim domain))"
    and "citations st \<noteq> []" and "LIKE_PATTERN_LIMIT < int (length (''%.'' @ d))"
  shows "post_domain_tags st domain category =
     (st\<lparr>domain_tags := fst (upsert_tag (domain_tags st) (domain_tags_seq st) d category),
         domain_tags_seq := snd (upsert_tag (domain_tags st) (domain_tags_seq st) d category),
         citations := fst (update_unknown (\<lambda>x. x = d) category (citations st))\<rparr>,
      Inl (ServerError ''LIKE or GLOB pattern too complex''))"
  unfolding post_domain_tags_valid [OF assms(1,2,3) refl refl refl refl] using assms(4,5) by simp

text \<open>
  C10, as the code has it. The second \<^verbatim>\<open>UPDATE\<close> of \<^verbatim>\<open>POST /api/domain-tags\<close> selects by the
  pattern \<^verbatim>\<open>'%.' + domain\<close>. For a normalised domain without \<^verbatim>\<open>%\<close>, \<^verbatim>\<open>_\<close> and NUL whose
  pattern is within the store's limit, the table the handler leaves is the table the first
  \<^verbatim>\<open>UPDATE\<close> left with exactly those \<open>unknown\<close> rows rewritten whose domain, read up to its
  first NUL, ends, ASCII case aside, with a dot and the domain; the count in the response
  is the first statement's count plus the number of these rows. A \<^verbatim>\<open>_\<close> or a \<^verbatim>\<open>%\<close> in the
  domain is a wildcard: the tags \<open>a_c.com\<close> and \<open>a%.com\<close> rewrite the \<open>unknown\<close> citation
  of \<open>x.abc.com\<close>, whose domain ends with neither.
\<close>

theorem like_update_exact:
  assumes "trim domain \<noteq> []" and "trim category \<noteq> []"
    and "d = strip_www (toLowerCase (trim domain))"
    and "CHR ''%'' \<notin> set d" and "CHR ''_'' \<notin> set d" and "CHR 0x00 \<notin> set d"
    and "int (length (''%.'' @ d)) \<le> LIKE_PATTERN_LIMIT"
    and "first = update_unknown (\<lambda>x. x = d) category (citations st)"
  shows "citations (fst (post_domain_tags st domain category)) =
           map (\<lambda>r. if suffix (toLowerCase (CHR ''.'' # d)) (toLowerCase (until_nul (cit_domain r)))
                         \<and> cit_category r = ''unknown''
                      then r\<lparr>cit_category := category\<rparr> else r) (fst first)
       \<and> snd (post_domain_tags st domain category) =
             Inr (find (\<lambda>t. tag_domain t = d)
                    (domain_tags (fst (post_domain_tags st domain category))),
                  snd first +
                  length (filter (\<lambda>r. suffix (toLowerCase (CHR ''.'' # d))
                                          (toLowerCase (until_nul (cit_domain r)))
                                       \<and> cit_category r = ''unknown'') (fst first)))
       \<and> map (\<lambda>r. (cit_domain r, cit_category r))
            (citations (fst (post_domain_tags example_store ''a_c.com'' ''news'')))
          = [(''example.com'', ''unknown''), (''blog.example.com'', ''social''),
             (''x.abc.com'', ''news'')]
       \<and> \<not> suffix ''.a_c.com'' ''x.abc.com''
       \<and> map (\<lambda>r. (cit_domain r, cit_category r))
            (citations (fst (post_domain_tags example_store ''a%.com'' ''news'')))
          = [(''example.com'', ''unknown''), (''blog.example.com'', ''social''),
             (''x.abc.com'', ''news'')]
       \<and> \<not> suffix ''.a%.com'' ''x.abc.com''"
proof -
  have q: "CHR ''%'' \<notin> set (CHR ''.'' # d)" "CHR ''_'' \<notin> set (CHR ''.'' # d)"
      "CHR 0x00 \<notin> set (CHR ''.'' # d)"
    using assms(4,5,6) by simp_all
  have lk: "sql_like (''%.'' @ d) =
      (\<lambda>v. suffix (toLowerCase (CHR ''.'' # d)) (toLowerCase (until_nul v)))"
    using sql_like_suffix [OF q] by (simp add: fun_eq_iff)
  have nt: "(citations st \<noteq> [] \<and> LIKE_PATTERN_LIMIT < int (length (''%.'' @ d))) = False"
    using assms(7) by auto
  note post = post_domain_tags_valid [OF assms(1,2,3) refl assms(8) refl refl]
  have a: "citations (fst (post_domain_tags st domain category)) =
           map (\<lambda>r. if suffix (toLowerCase (CHR ''.'' # d)) (toLowerCase (until_nul (cit_domain r)))
                         \<and> cit_category r = ''unknown''
                      then r\<lparr>cit_category := category\<rparr> else r) (fst first)"
    unfolding post nt lk update_unknown_def by simp
  have b: "snd (post_domain_tags st domain category) =
             Inr (find (\<lambda>t. tag_domain t = d)
                    (domain_tags (fst (post_domain_tags st domain category))),
                  snd first +
                  length (filter (\<lambda>r. suffix (toLowerCase (CHR ''.'' # d))
                                          (toLowerCase (until_nul (cit_domain r)))
                                       \<and> cit_category r = ''unknown'') (fst first)))"
    unfolding post nt lk update_unknown_def by simp
  have c: "map (\<lambda>r. (cit_domain r, cit_category r))
            (citations (fst (post_domain_tags example_store ''a_c.com'' ''news'')))
          = [(''example.com'', ''unknown''), (''blog.example.com'', ''social''),
             (''x.abc.com'', ''news'')]"
    by code_simp
  have d: "\<not> suffix ''.a_c.com'' ''x.abc.com''" by code_simp
  have e: "map (\<lambda>r. (cit_domain r, cit_category r))
            (citations (fst (post_domain_tags example_store ''a%.com'' ''news'')))
          = [(''example.com'', ''unknown''), (''blog.example.com'', ''social''),
             (''x.abc.com'', ''news'')]"
    by code_simp
  have f: "\<not> suffix ''.a%.com'' ''x.abc.com''" by code_simp
  from a b c d e f show ?thesis by blast
qed

theorem like_update_exact_witness:
  "map (\<lambda>r. (cit_domain r, cit_category r))
     (citations (fst (post_domain_tags example_store ''ABC.com'' ''news'')))
     = [(''example.com'', ''unknown''), (''blog.example.com'', ''social''),
        (''x.abc.com'', ''news'')]
   \<and> snd (post_domain_tags example_store ''ABC.com'' ''news'')
     = Inr (Some \<lparr>tag_id = 3, tag_domain = ''abc.com'', tag_category = ''news'',
                   tag_source = ''user''\<rparr>, 1)"
proof -
  have h1: "trim ''ABC.com'' \<noteq> []" and h2: "trim ''news'' \<noteq> []" by code_simp+
  have h3: "''abc.com'' = strip_www (toLowerCase (trim ''ABC.com''))" by code_simp
  have h4: "CHR ''%'' \<notin> set ''abc.com''" and h5: "CHR ''_'' \<notin> set ''abc.com''"
    and h6: "CHR 0x00 \<notin> set ''abc.com''"
    by simp_all
  have h7: "int (length (''%.'' @ ''abc.com'')) \<le> LIKE_PATTERN_LIMIT" by code_simp
  note inst = like_update_exact [OF h1 h2 h3 h4 h5 h6 h7 refl, of example_store]
  have rows: "map (\<lambda>r. (cit_domain r, cit_category r))
      (map (\<lambda>r. if suffix (toLowerCase (CHR ''.'' # ''abc.com''))
                      (toLowerCase (until_nul (cit_domain r)))
                   \<and> cit_category r = ''unknown''
                then r\<lparr>cit_category := ''news''\<rparr> else r)
         (fst (update_unknown (\<lambda>x. x = ''abc.com'') ''news'' (citations example_store))))
      = [(''example.com'', ''unknown''), (''blog.example.com'', ''social''),
         (''x.abc.com'', ''news'')]"
    by code_simp
  have cnt: "snd (update_unknown (\<lambda>x. x = ''abc.com'') ''news'' (citations example_store)) +
      length (filter (\<lambda>r. suffix (toLowerCase (CHR ''.'' # ''abc.com''))
                         (toLowerCase (until_nul (cit_domain r)))
                      \<and> cit_category r = ''unknown'')
         (fst (update_unknown (\<lambda>x. x = ''abc.com'') ''news'' (citations example_store)))) = 1"
    by code_simp
  have tag: "find (\<lambda>t. tag_domain t = ''abc.com'')
      (domain_tags (fst (post_domain_tags example_store ''ABC.com'' ''news'')))
      = Some \<lparr>tag_id = 3, tag_domain = ''abc.com'', tag_category = ''news'',
                tag_source = ''user''\<rparr>"
    by code_simp
  from inst rows cnt tag show ?thesis by (simp only:)
qed

text \<open>
  The claim C10 as written fails for a domain with a NUL character, which is no wildcard:
  the pattern ends at the NUL, so the tag of \<^verbatim>\<open>com\<close>, NUL, \<^verbatim>\<open>x\<close> rewrites the \<open>unknown\<close>
  citations whose domain ends with \<^verbatim>\<open>.com\<close>, none of which ends with a dot and the
  tagged domain.
\<close>

theorem like_nul_counterexample:
  "CHR ''%'' \<notin> set nul_domain \<and> CHR ''_'' \<notin> set nul_domain
   \<and> map (\<lambda>r. (cit_domain r, cit_category r))
        (citations (fst (post_domain_tags example_store nul_domain ''news'')))
     = [(''example.com'', ''news''), (''blog.example.com'', ''social''),
        (''x.abc.com'', ''news'')]
   \<and> \<not> suffix (CHR ''.'' # nul_domain) ''example.com''
   \<and> \<not> suffix (CHR ''.'' # nul_domain) ''x.abc.com''
   \<and> snd (post_domain_tags example_store nul_domain ''news'')
     = Inr (Some \<lparr>tag_id = 3, tag_domain = nul_domain, tag_category = ''news'',
                   tag_source = ''user''\<rparr>, 2)"
  by code_simp

section \<open>Recording a run\<close>

lemma insertCitation_Inr:
  "insertCitation se table rid c = Inr table' \<Longrightarrow>
   \<exists>row. fst table' = fst table @ [row] \<and> categorized_of row = c \<and> cit_run_id row = rid"
  by (auto simp: insertCitation_def Let_def categorized_of_def split: option.splits)

lemma insertAll_Inr:
  "insertAll se table rid items = Inr table' \<Longrightarrow>
   \<exists>rows. fst table' = fst table @ rows \<and> map categorized_of rows = items
          \<and> list_all (\<lambda>c. cit_run_id c = rid) rows"
proof (induction items arbitrary: table)
  case Nil
  then show ?case by simp
next
  case (Cons c items)
  from Cons.prems obtain table1 where
    one: "insertCitation se table rid c = Inr table1"
    and rest: "insertAll se table1 rid items = Inr table'"
    by (cases "insertCitation se table rid c") simp_all
  from insertCitation_Inr [OF one] obtain row where
    row: "fst table1 = fst table @ [row]" "categorized_of row = c" "cit_run_id row = rid"
    by blast
  from Cons.IH [OF rest] obtain rows where
    rows: "fst table' = fst table1 @ rows" "map categorized_of rows = items"
      "list_all (\<lambda>c. cit_run_id c = rid) rows"
    by blast
  show ?case
  proof (intro exI conjI)
    show "fst table' = fst table @ (row # rows)" using row(1) rows(1) by simp
    show "map categorized_of (row # rows) = c # items" using row(2) rows(2) by simp
    show "list_all (\<lambda>c. cit_run_id c = rid) (row # rows)" using row(3) rows(3) by simp
  qed
qed

lemma insertAll_no_error:
  "(\<And>row. se row = None) \<Longrightarrow> \<exists>table'. insertAll se table rid items = Inr table'"
  by (induction items arbitrary: table) (auto simp: insertCitation_def Let_def)

text \<open>
  What the transaction gives: the citation table after it is the table before, either as
  it was, with its sequence, or followed by one row for every categorised citation.
\<close>

lemma transaction_all_or_nothing:
  "transaction (\<lambda>table. insertAll se table rid items) table0 = (table1, r) \<Longrightarrow>
   (r \<noteq> None \<and> table1 = table0) \<or>
   (r = None \<and> (\<exists>rows. fst table1 = fst table0 @ rows \<and> map categorized_of rows = items
                   \<and> list_all (\<lambda>c. cit_run_id c = rid) rows))"
  by (auto simp: transaction_def split: sum.splits dest: insertAll_Inr)


lemma insert_run_found:
  "find (\<lambda>q. query_id q = qid) (queries st) = Some q \<Longrightarrow>
   \<exists>st1 rid. insert_run st qid data m cost oc = Inr (st1, rid)"
  by (simp add: insert_run_def Let_def)

section \<open>Batch analysis: one entry per id\<close>

lemma select_query_Some:
  "select_query sel st i ref = Inr (Some q) \<Longrightarrow>
   ref = RowId (query_id q) \<and> find (\<lambda>q'. query_id q' = query_id q) (queries st) = Some q
   \<and> ref_query st ref = Some q"
  by (cases ref)
    (auto simp: select_query_def ref_query_def split: option.splits dest: find_Some_mem)

lemma select_query_ok:
  "sel i = None \<Longrightarrow> ref \<noteq> Unbindable \<Longrightarrow> select_query sel st i ref = Inr (ref_query st ref)"
  by (cases ref) (simp_all add: select_query_def ref_query_def)

text \<open>One turn, by cases of what it meets.\<close>

lemma batch_item_cases:
  obtains (throws) msg where "batch_item h sel se f m st i ref = (st, Inl msg)"
      and "select_query sel st i ref = Inl msg"
  | (same) e where "batch_item h sel se f m st i ref = (st, Inr e)"
      and "entry_query_id e = ref" and "\<forall>qtext rid n oc cost cs. e \<noteq> EntryOk ref qtext rid n oc cost cs"
      and "select_query sel st i ref = Inr None \<longrightarrow> e = EntryNotFound ref"
      and "select_query sel st i ref \<noteq> Inr None \<longrightarrow>
           (\<exists>q. select_query sel st i ref = Inr (Some q) \<and>
             (\<forall>data. f i (query_text q) \<noteq> FetchOk data))"
  | (run_only) st1 rid q data msg where
      "batch_item h sel se f m st i ref = (st1, Inr (EntryThrown ref (query_text q) msg))"
      and "select_query sel st i ref = Inr (Some q)" and "f i (query_text q) = FetchOk data"
      and "insert_run st (query_id q) data m (estimateCost m (Num 1))
             (length (filter (\<lambda>c. c_category c = ''owned'')
               (categorize_from h (domain_tags st)
                 (case select_owned_domains st (query_id q) of None \<Rightarrow> [] | Some ds \<Rightarrow> ds)
                 0 (data_citations data)))) = Inr (st1, rid)"
      and "\<exists>row. se row \<noteq> None"
  | (stored) st1 rid q data table' where
      "batch_item h sel se f m st i ref =
         (st1\<lparr>citations := fst table', citations_seq := snd table'\<rparr>,
          Inr (EntryOk ref (query_text q) rid (length (data_citations data))
            (length (filter (\<lambda>c. c_category c = ''owned'')
               (categorize_from h (domain_tags st)
                 (case select_owned_domains st (query_id q) of None \<Rightarrow> [] | Some ds \<Rightarrow> ds)
                 0 (data_citations data))))
            (estimateCost m (Num 1))
            (categorize_from h (domain_tags st)
                 (case select_owned_domains st (query_id q) of None \<Rightarrow> [] | Some ds \<Rightarrow> ds)
                 0 (data_citations data))))"
      and "select_query sel st i ref = Inr (Some q)" and "f i (query_text q) = FetchOk data"
      and "insert_run st (query_id q) data m (estimateCost m (Num 1))
             (length (filter (\<lambda>c. c_category c = ''owned'')
               (categorize_from h (domain_tags st)
                 (case select_owned_domains st (query_id q) of None \<Rightarrow> [] | Some ds \<Rightarrow> ds)
                 0 (data_citations data)))) = Inr (st1, rid)"
      and "insertAll se (citations st1, citations_seq st1) rid
             (categorize_from h (domain_tags st)
                 (case select_owned_domains st (query_id q) of None \<Rightarrow> [] | Some ds \<Rightarrow> ds)
                 0 (data_citations data)) = Inr table'"
proof (cases "select_query sel st i ref")
  case (Inl msg)
  then have bi: "batch_item h sel se f m st i ref = (st, Inl msg)" by (simp add: batch_item_def)
  show ?thesis by (rule throws [OF bi Inl])
next
  case (Inr qo)
  show ?thesis
  proof (cases qo)
    case None
    with Inr have "batch_item h sel se f m st i ref = (st, Inr (EntryNotFound ref))"
      by (simp add: batch_item_def)
    with Inr None show ?thesis by (intro same [of "EntryNotFound ref"]) simp_all
  next
    case (Some q)
    show ?thesis
    proof (cases "f i (query_text q)")
      case (FetchThrows msg)
      with Inr Some have "batch_item h sel se f m st i ref =
          (st, Inr (EntryThrown ref (query_text q) msg))"
        by (simp add: batch_item_def)
      with Inr Some FetchThrows show ?thesis
        by (intro same [of "EntryThrown ref (query_text q) msg"]) simp_all
    next
      case (FetchNotOk status body)
      with Inr Some have "batch_item h sel se f m st i ref =
          (st, Inr (EntryApiError ref (query_text q) status body))"
        by (simp add: batch_item_def)
      with Inr Some FetchNotOk show ?thesis
        by (intro same [of "EntryApiError ref (query_text q) status body"]) simp_all
    next
      case (FetchOk data)
      let ?cc = "categorize_from h (domain_tags st)
                 (case select_owned_domains st (query_id q) of None \<Rightarrow> [] | Some ds \<Rightarrow> ds)
                 0 (data_citations data)"
      let ?oc = "length (filter (\<lambda>c. c_category c = ''owned'') ?cc)"
      let ?ins = "insert_run st (query_id q) data m (estimateCost m (Num 1)) ?oc"
      from select_query_Some [OF Inr [unfolded Some]]
      have "find (\<lambda>q'. query_id q' = query_id q) (queries st) = Some q" by simp
      from insert_run_found [OF this, of data m "estimateCost m (Num 1)" ?oc]
      obtain inserted where ins: "?ins = Inr inserted" by auto
      obtain st1 rid where inserted: "inserted = (st1, rid)" by (cases inserted)
      have sel: "select_query sel st i ref = Inr (Some q)" using Inr Some by simp
      have ins1: "?ins = Inr (st1, rid)" using ins inserted by simp
      show ?thesis
      proof (cases "insertAll se (citations st1, citations_seq st1) rid ?cc")
        case (Inl msg)
        from Inl have ex: "\<exists>row. se row \<noteq> None"
          using insertAll_no_error [of se "(citations st1, citations_seq st1)" rid ?cc]
          by (metis sum.distinct(1))
        from Inl sel FetchOk ins1
        have bi: "batch_item h sel se f m st i ref =
            (st1, Inr (EntryThrown ref (query_text q) msg))"
          by (simp add: batch_item_def Let_def transaction_def)
        show ?thesis by (rule run_only [OF bi sel FetchOk ins1 ex])
      next
        case all: (Inr table')
        from all sel FetchOk ins1
        have bi: "batch_item h sel se f m st i ref =
           (st1\<lparr>citations := fst table', citations_seq := snd table'\<rparr>,
            Inr (EntryOk ref (query_text q) rid (length (data_citations data)) ?oc
              (estimateCost m (Num 1)) ?cc))"
          by (simp add: batch_item_def Let_def transaction_def)
        show ?thesis by (rule stored [OF bi sel FetchOk ins1 all])
      qed
    qed
  qed
qed

lemma batch_item_no_throw:
  assumes "sel i = None" and "ref \<noteq> Unbindable"
  shows "\<exists>e. snd (batch_item h sel se f m st i ref) = Inr e"
proof (cases rule: batch_item_cases [of h sel se f m st i ref])
  case (throws msg)
  with select_query_ok [where sel = sel and i = i and ref = ref and st = st, OF assms]
  show ?thesis by simp
next
  case (same e)
  then show ?thesis by simp
next
  case (run_only st1 rid q data msg)
  then show ?thesis by simp
next
  case (stored st1 rid q data table')
  then show ?thesis by simp
qed













text \<open>
  The loop when no lookup throws: every element can be bound and the store answers every
  lookup. Then it runs to its end, and its results are those of its turns.
\<close>

lemma batch_loop_no_throw:
  assumes "list_all (\<lambda>ref. ref \<noteq> Unbindable) ids" and "\<forall>k<length ids. sel (i + k) = None"
  shows "\<exists>results. snd (batch_loop h sel se f m st i ids) = Inr results"
  using assms
proof (induction ids arbitrary: st i)
  case Nil
  then show ?case by simp
next
  case (Cons ref rest)
  from Cons.prems have b: "ref \<noteq> Unbindable" and bs: "list_all (\<lambda>ref. ref \<noteq> Unbindable) rest"
    by simp_all
  from Cons.prems(2) have s: "sel i = None" by auto
  from Cons.prems(2) have ss: "\<forall>k<length rest. sel (i + 1 + k) = None" by auto
  from batch_item_no_throw [where sel = sel and i = i and ref = ref and h = h and se = se
      and f = f and m = m and st = st, OF s b]
  obtain e where
    e: "snd (batch_item h sel se f m st i ref) = Inr e" by blast
  from Cons.IH [OF bs ss, of "fst (batch_item h sel se f m st i ref)"] obtain es where
    es: "snd (batch_loop h sel se f m (fst (batch_item h sel se f m st i ref)) (i + 1) rest) = Inr es"
    by blast
  from e es show ?case by (simp add: Let_def)
qed

lemma batch_loop_Cons_ok:
  assumes "list_all (\<lambda>ref. ref \<noteq> Unbindable) (ref # rest)"
    and "\<forall>k<length (ref # rest). sel (i + k) = None"
  shows "batch_loop h sel se f m st i (ref # rest) =
     (fst (batch_loop h sel se f m (fst (batch_item h sel se f m st i ref)) (i + 1) rest),
      Inr (projr (snd (batch_item h sel se f m st i ref)) #
           projr (snd (batch_loop h sel se f m (fst (batch_item h sel se f m st i ref)) (i + 1) rest))))"
proof -
  from assms have b: "ref \<noteq> Unbindable" and bs: "list_all (\<lambda>ref. ref \<noteq> Unbindable) rest"
    by simp_all
  from assms(2) have s: "sel i = None" by auto
  from assms(2) have ss: "\<forall>k<length rest. sel (i + 1 + k) = None" by auto
  from batch_item_no_throw [where sel = sel and i = i and ref = ref and h = h and se = se
      and f = f and m = m and st = st, OF s b]
  obtain e where
    e: "snd (batch_item h sel se f m st i ref) = Inr e" by blast
  from batch_loop_no_throw [OF bs ss, of h se f m "fst (batch_item h sel se f m st i ref)"]
  obtain es where
    es: "snd (batch_loop h sel se f m (fst (batch_item h sel se f m st i ref)) (i + 1) rest) = Inr es"
    by blast
  from e es show ?thesis by (simp add: Let_def)
qed






text \<open>
  The loop when a lookup throws: it ends at the first such turn, with the store as the
  earlier turns left it, and with no results.
\<close>

lemma batch_loop_aborts:
  assumes "j < length ids"
    and "list_all (\<lambda>ref. ref \<noteq> Unbindable) (take j ids)" and "\<forall>k<j. sel (i + k) = None"
    and "select_query sel (fst (batch_loop h sel se f m st i (take j ids))) (i + j) (ids ! j)
           = Inl msg"
  shows "batch_loop h sel se f m st i ids =
           (fst (batch_loop h sel se f m st i (take j ids)), Inl msg)"
  using assms
proof (induction ids arbitrary: st i j)
  case Nil
  then show ?case by simp
next
  case (Cons ref rest)
  show ?case
  proof (cases j)
    case 0
    with Cons.prems(4) have "batch_item h sel se f m st i ref = (st, Inl msg)"
      by (simp add: batch_item_def)
    with 0 show ?thesis by (simp add: Let_def)
  next
    case (Suc j')
    let ?st1 = "fst (batch_item h sel se f m st i ref)"
    from Suc Cons.prems have j': "j' < length rest" by simp
    from Suc Cons.prems(2) have b: "ref \<noteq> Unbindable"
      and bs: "list_all (\<lambda>ref. ref \<noteq> Unbindable) (take j' rest)" by simp_all
    from Suc Cons.prems(3) have s: "sel i = None" by auto
    have ss: "\<forall>k<j'. sel (i + 1 + k) = None"
    proof (intro allI impI)
      fix k assume "k < j'"
      with Suc have "Suc k < j" by simp
      with Cons.prems(3) have "sel (i + Suc k) = None" by blast
      then show "sel (i + 1 + k) = None" by simp
    qed
    from batch_item_no_throw [where sel = sel and i = i and ref = ref and h = h and se = se
      and f = f and m = m and st = st, OF s b]
  obtain e where
      e: "snd (batch_item h sel se f m st i ref) = Inr e" by blast
    have b1: "list_all (\<lambda>ref. ref \<noteq> Unbindable) (ref # take j' rest)" using b bs by simp
    have s1: "\<forall>k<length (ref # take j' rest). sel (i + k) = None"
      using Cons.prems(3) Suc j' by simp
    have tk: "take j (ref # rest) = ref # take j' rest" and nt: "(ref # rest) ! j = rest ! j'"
      and ix: "i + j = i + 1 + j'"
      unfolding Suc by simp_all
    have pre: "fst (batch_loop h sel se f m st i (ref # take j' rest)) =
        fst (batch_loop h sel se f m ?st1 (i + 1) (take j' rest))"
      using batch_loop_Cons_ok [OF b1 s1, of h se f m st] by (simp del: batch_loop.simps)
    from Cons.prems(4) have sq: "select_query sel
        (fst (batch_loop h sel se f m ?st1 (i + 1) (take j' rest))) (i + 1 + j') (rest ! j')
         = Inl msg"
      unfolding tk nt ix pre .
    from Cons.IH [OF j' bs ss sq]
    have later: "batch_loop h sel se f m ?st1 (i + 1) rest =
        (fst (batch_loop h sel se f m ?st1 (i + 1) (take j' rest)), Inl msg)" .
    have "batch_loop h sel se f m st i (ref # rest) =
        (fst (batch_loop h sel se f m ?st1 (i + 1) (take j' rest)), Inl msg)"
      using e later by (simp add: Let_def)
    then show ?thesis unfolding tk pre .
  qed
qed





text \<open>
  The example of the specification: two citations, one of a tagged news site, one of a
  subdomain of the client's own domain.
\<close>

lemma post_analyze_example:
  "post_analyze example_hostname no_storage_error (FetchOk example_data) example_store (Some 1)
     ''best exchange'' ''key'' ''sonar''
   = (example_store
        \<lparr>runs := runs example_store @
           [\<lparr>run_id = 2, run_query_id = 1, run_raw_response = ''{...}'',
              run_response_text = ''See the sources.'', run_model = ''sonar'',
              run_cost_estimate = Num (7 / 10000), run_citation_count = 2,
              run_owned_citation_count = 1\<rparr>],
         runs_seq := 2,
         citations := citations example_store @
           [\<lparr>cit_id = 4, cit_run_id = 2, cit_url = ''https://www.coindesk.com/a'',
              cit_domain = ''coindesk.com'', cit_position = 1, cit_category = ''news''\<rparr>,
            \<lparr>cit_id = 5, cit_run_id = 2, cit_url = ''https://sub.owned.com/x'',
              cit_domain = ''sub.owned.com'', cit_position = 2, cit_category = ''owned''\<rparr>],
         citations_seq := 5\<rparr>,
      Inr \<lparr>resp_run_id = Some 2, resp_text = ''See the sources.'',
            resp_citations =
              [\<lparr>c_url = ''https://www.coindesk.com/a'', c_domain = ''coindesk.com'',
                 c_position = 1, c_category = ''news''\<rparr>,
               \<lparr>c_url = ''https://sub.owned.com/x'', c_domain = ''sub.owned.com'',
                 c_position = 2, c_category = ''owned''\<rparr>],
            resp_citation_count = 2, resp_owned_citation_count = 1, resp_model = ''sonar'',
            resp_cost_estimate = Num (7 / 10000)\<rparr>)"
  by code_simp

text \<open>
  A run can only be recorded for a query that exists: the foreign key of the run table is
  enforced, the insert throws, and the handler answers 500 with nothing stored.
\<close>

lemma post_analyze_no_query:
  "post_analyze example_hostname no_storage_error (FetchOk example_data) example_store (Some 2)
     ''best exchange'' ''key'' ''sonar''
   = (example_store, Inl (ServerError ''FOREIGN KEY constraint failed''))"
  by code_simp

text \<open>
  C1, at a request whose second citation insert throws. The transaction takes back the
  first citation row, the handler answers 500, and the run row, inserted before the
  transaction began, stays in the store with a citation count of 2 and no citation row.
  The same holds for the turn of the batch.
\<close>

theorem run_insert_outside_transaction:
  "post_analyze example_hostname example_storage_error (FetchOk example_data) example_store
     (Some 1) ''best exchange'' ''key'' ''sonar''
   = (example_store
        \<lparr>runs := runs example_store @
           [\<lparr>run_id = 2, run_query_id = 1, run_raw_response = ''{...}'',
              run_response_text = ''See the sources.'', run_model = ''sonar'',
              run_cost_estimate = Num (7 / 10000), run_citation_count = 2,
              run_owned_citation_count = 1\<rparr>],
         runs_seq := 2\<rparr>,
      Inl (ServerError ''database or disk is full''))
   \<and> batch_item example_hostname no_select_error example_storage_error example_fetch ''sonar''
       example_store 0 (RowId 1)
   = (example_store
        \<lparr>runs := runs example_store @
           [\<lparr>run_id = 2, run_query_id = 1, run_raw_response = ''{...}'',
              run_response_text = ''See the sources.'', run_model = ''sonar'',
              run_cost_estimate = Num (7 / 10000), run_citation_count = 2,
              run_owned_citation_count = 1\<rparr>],
         runs_seq := 2\<rparr>,
      Inr (EntryThrown (RowId 1) ''best exchange'' ''database or disk is full''))"
  by code_simp

section \<open>Worked instances\<close>

theorem categorizeDomain_precedence_witness:
  "categorizeDomain
     [\<lparr>tag_id = 1, tag_domain = ''sub.owned.com'', tag_category = ''news'', tag_source = ''system''\<rparr>]
     ''sub.owned.com'' [''  WWW.Owned.com ''] = ''owned''
   \<and> categorizeDomain example_tags ''coindesk.com'' [''owned.com''] = ''news''
   \<and> categorizeDomain example_tags ''markets.coindesk.com'' [''owned.com''] = ''news''
   \<and> categorizeDomain example_tags ''notowned.com'' [''owned.com''] = ''unknown''"
  unfolding categorizeDomain_precedence by code_simp

theorem delete_fails_closed_witness:
  "delete_domain_tag example_store 7 = (example_store, Inl (NotFound ''Tag not found''))
   \<and> delete_domain_tag example_store 1 = (example_store, Inl (Forbidden ''Cannot delete system tags''))
   \<and> delete_domain_tag example_store 2 =
       (example_store\<lparr>domain_tags := remove1 (example_tags ! 1) (domain_tags example_store)\<rparr>, Inr ())"
proof -
  have f7: "find (\<lambda>t. tag_id t = 7) (domain_tags example_store) = None"
    by code_simp
  have f1: "find (\<lambda>t. tag_id t = 1) (domain_tags example_store) = Some (example_tags ! 0)
            \<and> tag_source (example_tags ! 0) = ''system''"
    by code_simp
  have f2: "find (\<lambda>t. tag_id t = 2) (domain_tags example_store) = Some (example_tags ! 1)
            \<and> tag_source (example_tags ! 1) = ''user''"
    by code_simp
  from f7 delete_fails_closed [of 7 example_store]
  have a: "delete_domain_tag example_store 7 = (example_store, Inl (NotFound ''Tag not found''))"
    by blast
  from f1 delete_fails_closed [of 1 example_store]
  have b: "delete_domain_tag example_store 1 =
      (example_store, Inl (Forbidden ''Cannot delete system tags''))"
    by blast
  from f2 wf_example delete_fails_closed [of 2 example_store]
  have c: "delete_domain_tag example_store 2 =
       (example_store\<lparr>domain_tags := remove1 (example_tags ! 1) (domain_tags example_store)\<rparr>, Inr ())"
    by blast
  from a b c show ?thesis by blast
qed

section \<open>Cost estimate: the price lookup\<close>

lemma estimateCost_sonar_one: "estimateCost ''sonar'' (Num 1) = Num (7 / 10000)"
  by code_simp

lemma estimateCost_fallback:
  "MODEL_PRICING m = None \<Longrightarrow> estimateCost m q = estimateCost ''sonar'' q"
  by (simp add: estimateCost_def MODEL_PRICING_def)

text \<open>
  C8, at a model name that is no key of the price table but a member every object
  inherits: the lookup \<^verbatim>\<open>MODEL_PRICING['toString']\<close> is truthy, the fallback to the \<open>sonar\<close>
  prices is not taken, and the estimate is \<open>NaN\<close>, not the estimate for \<open>sonar\<close>.
\<close>

theorem estimateCost_inherited_key:
  "MODEL_PRICING ''toString'' = Some Inherited
   \<and> estimateCost ''toString'' (Num 10) = NaN
   \<and> estimateCost ''sonar'' (Num 10) = Num (7 / 1000)"
  by code_simp

end
